theory Spec2Isabelle
  imports Complex_Main
begin

section \<open>JavaScript values used by the monitoring core\<close>

text \<open>
  A JavaScript number is modelled as an exact rational extended with the three special
  values of IEEE arithmetic. The rounding of double precision is not modelled: the
  latencies the monitor measures are \<open>Math.round\<close> of a clock difference, and the
  counters count probes, so every number of a run is an integer far below \<open>2^53\<close>.
  The two zeros of IEEE arithmetic are one value here (\<open>Fin 0\<close>); both are falsy and
  compare equal.
\<close>

datatype jsnum = NaN | NInf | Fin rat | PInf

datatype jsval = JUndefined | JNull | JBool bool | JNum jsnum | JStr string

text \<open>\<open>typeof v === 'number'\<close>, \<open>isNaN\<close> on a number, and the number inside a value.\<close>

fun typeof_number :: "jsval \<Rightarrow> bool" where
  "typeof_number (JNum n) = True"
| "typeof_number v = False"

fun num_isNaN :: "jsnum \<Rightarrow> bool" where
  "num_isNaN NaN = True"
| "num_isNaN n = False"

fun the_num :: "jsval \<Rightarrow> jsnum" where
  "the_num (JNum n) = n"
| "the_num v = NaN"

text \<open>Truthiness of a number: \<open>0\<close> and \<open>NaN\<close> are falsy. \<open>a || d\<close> on numbers.\<close>

fun truthy_num :: "jsnum \<Rightarrow> bool" where
  "truthy_num NaN = False"
| "truthy_num (Fin x) = (x \<noteq> 0)"
| "truthy_num n = True"

definition js_or :: "jsnum \<Rightarrow> jsnum \<Rightarrow> jsnum" where
  "js_or a d = (if truthy_num a then a else d)"

text \<open>Addition, division, \<open>Math.round\<close>, comparison, \<open>Math.min\<close>, \<open>Math.max\<close>.\<close>

fun js_add :: "jsnum \<Rightarrow> jsnum \<Rightarrow> jsnum" where
  "js_add (Fin a) (Fin b) = Fin (a + b)"
| "js_add NaN b = NaN"
| "js_add a NaN = NaN"
| "js_add PInf NInf = NaN"
| "js_add NInf PInf = NaN"
| "js_add PInf b = PInf"
| "js_add a PInf = PInf"
| "js_add NInf b = NInf"
| "js_add a NInf = NInf"

fun js_neg :: "jsnum \<Rightarrow> jsnum" where
  "js_neg NaN = NaN"
| "js_neg NInf = PInf"
| "js_neg PInf = NInf"
| "js_neg (Fin a) = Fin (- a)"

definition js_sub :: "jsnum \<Rightarrow> jsnum \<Rightarrow> jsnum" where
  "js_sub a b = js_add a (js_neg b)"

fun js_div :: "jsnum \<Rightarrow> jsnum \<Rightarrow> jsnum" where
  "js_div (Fin a) (Fin b) =
     (if b = 0 then (if a = 0 then NaN else if 0 < a then PInf else NInf)
      else Fin (a / b))"
| "js_div (Fin a) PInf = Fin 0"
| "js_div (Fin a) NInf = Fin 0"
| "js_div PInf (Fin b) = (if 0 \<le> b then PInf else NInf)"
| "js_div NInf (Fin b) = (if 0 \<le> b then NInf else PInf)"
| "js_div PInf PInf = NaN"
| "js_div PInf NInf = NaN"
| "js_div NInf PInf = NaN"
| "js_div NInf NInf = NaN"
| "js_div NaN b = NaN"
| "js_div a NaN = NaN"

fun math_round :: "jsnum \<Rightarrow> jsnum" where
  "math_round (Fin x) = Fin (of_int \<lfloor>x + 1 / 2\<rfloor>)"
| "math_round n = n"

fun js_lt :: "jsnum \<Rightarrow> jsnum \<Rightarrow> bool" where
  "js_lt (Fin a) (Fin b) = (a < b)"
| "js_lt NaN b = False"
| "js_lt a NaN = False"
| "js_lt a NInf = False"
| "js_lt NInf b = True"
| "js_lt PInf b = False"
| "js_lt a PInf = True"

definition js_eq :: "jsnum \<Rightarrow> jsnum \<Rightarrow> bool" where
  "js_eq a b = (\<not> num_isNaN a \<and> \<not> num_isNaN b \<and> a = b)"

definition js_le :: "jsnum \<Rightarrow> jsnum \<Rightarrow> bool" where
  "js_le a b = (\<not> num_isNaN a \<and> \<not> num_isNaN b \<and> \<not> js_lt b a)"

definition math_min :: "jsnum \<Rightarrow> jsnum \<Rightarrow> jsnum" where
  "math_min a b = (if num_isNaN a \<or> num_isNaN b then NaN else if js_lt b a then b else a)"

definition math_max :: "jsnum \<Rightarrow> jsnum \<Rightarrow> jsnum" where
  "math_max a b = (if num_isNaN a \<or> num_isNaN b then NaN else if js_lt a b then b else a)"

section \<open>Provider statistics\<close>

text \<open>
  One entry of \<open>stats.history\<close>: \<open>{timestamp: Date.now(), latency: latency}\<close>.
\<close>

record sample =
  timestamp :: nat
  latency :: jsnum

text \<open>
  The \<open>stats\<close> object. The type of \<open>history\<close> is a parameter: a list of samples where the
  array is read by value, an address where the sharing of the array matters
  (section on \<open>getStats\<close>). The numeric fields hold numbers and \<open>history\<close> holds an
  array in every object the monitor creates (constructor, \<open>clearStats\<close>), and
  \<open>updateStats\<close> keeps it so; the guards of the source for a missing \<open>provider\<close>,
  a missing \<open>stats\<close> and a non-array \<open>history\<close> have no input of these types.
\<close>

record 'h stats =
  st_current :: jsval
  st_min :: jsnum
  st_max :: jsnum
  st_avg :: jsnum
  st_total :: jsnum
  st_count :: jsnum
  st_successes :: jsnum
  st_failures :: jsnum
  st_history :: 'h

datatype status = Idle | Testing | Online | Offline

text \<open>
  A provider at run time: the fields of its registry record (absent fields are \<open>None\<close>),
  its \<open>stats\<close> and its \<open>status\<close>.
\<close>

record 's provider =
  p_id :: "string option"
  p_name :: "string option"
  p_endpoint :: "string option"
  p_pingPath :: "string option"
  p_color :: "string option"
  p_requiresAuth :: bool
  p_stats :: 's
  p_status :: status

type_synonym vstats = "sample list stats"
type_synonym vprovider = "vstats provider"

text \<open>
  \<open>updateStats(provider, latency, success)\<close>; the reading of \<open>Date.now()\<close> is the
  fourth argument.
\<close>

definition updateStats :: "vprovider \<Rightarrow> jsval \<Rightarrow> bool \<Rightarrow> nat \<Rightarrow> vprovider" where
  "updateStats provider lat success now =
    (let stats = p_stats provider;
         stats = stats\<lparr>st_count := js_add (js_or (st_count stats) (Fin 0)) (Fin 1)\<rparr>
     in if success \<and> typeof_number lat \<and> \<not> num_isNaN (the_num lat) then
          (let l = the_num lat;
               stats = stats\<lparr>st_successes := js_add (js_or (st_successes stats) (Fin 0)) (Fin 1)\<rparr>;
               stats = stats\<lparr>st_current := lat\<rparr>;
               stats = stats\<lparr>st_total := js_add (js_or (st_total stats) (Fin 0)) l\<rparr>;
               stats = (if js_lt (Fin 0) (st_successes stats)
                        then stats\<lparr>st_avg := math_round (js_div (st_total stats) (st_successes stats))\<rparr>
                        else stats);
               stats = stats\<lparr>st_min := math_min (js_or (st_min stats) PInf) l\<rparr>;
               stats = stats\<lparr>st_max := math_max (js_or (st_max stats) (Fin 0)) l\<rparr>;
               stats = stats\<lparr>st_history := st_history stats @ [\<lparr>timestamp = now, latency = l\<rparr>]\<rparr>;
               stats = (if length (st_history stats) > 100
                        then stats\<lparr>st_history := tl (st_history stats)\<rparr>
                        else stats)
           in provider\<lparr>p_stats := stats\<rparr>)
        else
          (let stats = stats\<lparr>st_failures := js_add (js_or (st_failures stats) (Fin 0)) (Fin 1)\<rparr>;
               stats = stats\<lparr>st_current := JNull\<rparr>
           in provider\<lparr>p_stats := stats\<rparr>))"

text \<open>
  The test of \<open>updateStats\<close> that selects its first branch:
  \<open>success && typeof latency === 'number' && !isNaN(latency)\<close>.
\<close>

definition accepted :: "jsval \<Rightarrow> bool \<Rightarrow> bool" where
  "accepted lat success = (success \<and> typeof_number lat \<and> \<not> num_isNaN (the_num lat))"

text \<open>A sequence of calls of \<open>updateStats\<close> on one provider, oldest first.\<close>

fun updateAll :: "vprovider \<Rightarrow> (jsval \<times> bool \<times> nat) list \<Rightarrow> vprovider" where
  "updateAll provider [] = provider"
| "updateAll provider ((lat, success, now) # cs) =
     updateAll (updateStats provider lat success now) cs"

text \<open>
  The entries a sequence of calls adds to \<open>history\<close>: one for each call that takes the
  first branch, in the order of the calls.
\<close>

definition samples_of :: "(jsval \<times> bool \<times> nat) list \<Rightarrow> sample list" where
  "samples_of cs = map (\<lambda>(lat, success, now). \<lparr>timestamp = now, latency = the_num lat\<rparr>)
     (filter (\<lambda>(lat, success, now). accepted lat success) cs)"

text \<open>The call that \<open>testProvider\<close> makes for a probe that succeeded with latency \<open>l\<close>.\<close>

definition ok_probe :: "rat \<times> nat \<Rightarrow> jsval \<times> bool \<times> nat" where
  "ok_probe x = (JNum (Fin (fst x)), True, snd x)"

text \<open>The \<open>shift()\<close> of \<open>updateStats\<close> after its \<open>push\<close>.\<close>

definition trim :: "'a list \<Rightarrow> 'a list" where
  "trim h = (if length h > 100 then tl h else h)"

text \<open>A value that is a finite number, in the words of the specification.\<close>

fun finite_number :: "jsval \<Rightarrow> bool" where
  "finite_number (JNum (Fin x)) = True"
| "finite_number v = False"

section \<open>The provider registry and the monitor\<close>

text \<open>
  A record of \<open>API_PROVIDERS\<close>. A field that a record does not have is \<open>None\<close>;
  a string is falsy when it is absent or empty.
\<close>

record registry_record =
  r_id :: "string option"
  r_name :: "string option"
  r_endpoint :: "string option"
  r_pingPath :: "string option"
  r_color :: "string option"
  r_requiresAuth :: bool

fun truthy_str :: "string option \<Rightarrow> bool" where
  "truthy_str None = False"
| "truthy_str (Some s) = (s \<noteq> [])"

definition str_or :: "string option \<Rightarrow> string \<Rightarrow> string" where
  "str_or a d = (if truthy_str a then the a else d)"

definition API_PROVIDERS :: "registry_record option list" where
  "API_PROVIDERS =
    [Some \<lparr>r_id = Some ''openai'', r_name = Some ''OpenAI'',
        r_endpoint = Some ''https://api.openai.com'', r_pingPath = Some ''/v1/models'',
        r_color = Some ''#10a37f'', r_requiresAuth = False\<rparr>,
     Some \<lparr>r_id = Some ''anthropic'', r_name = Some ''Anthropic (Claude)'',
        r_endpoint = Some ''https://api.anthropic.com'', r_pingPath = Some ''/v1/models'',
        r_color = Some ''#d4a373'', r_requiresAuth = False\<rparr>,
     Some \<lparr>r_id = Some ''google'', r_name = Some ''Google AI'',
        r_endpoint = Some ''https://generativelanguage.googleapis.com'',
        r_pingPath = Some ''/v1beta/models'',
        r_color = Some ''#4285f4'', r_requiresAuth = False\<rparr>,
     Some \<lparr>r_id = Some ''azure'', r_name = Some ''Azure OpenAI'',
        r_endpoint = Some ''https://azure.microsoft.com'', r_pingPath = Some ''/'',
        r_color = Some ''#0078d4'', r_requiresAuth = False\<rparr>,
     Some \<lparr>r_id = Some ''cohere'', r_name = Some ''Cohere'',
        r_endpoint = Some ''https://api.cohere.ai'', r_pingPath = Some ''/v1/models'',
        r_color = Some ''#39594d'', r_requiresAuth = False\<rparr>,
     Some \<lparr>r_id = Some ''huggingface'', r_name = Some ''Hugging Face'',
        r_endpoint = Some ''https://api-inference.huggingface.co'', r_pingPath = Some ''/'',
        r_color = Some ''#ff9d0b'', r_requiresAuth = False\<rparr>]"

text \<open>
  \<open>validateProviders\<close> runs once over the registry and only writes to the console; its
  result here is the list of messages, each with the index of the record. The registry
  itself is not changed.
\<close>

datatype console_msg =
    ProviderIsNull nat
  | MissingFields nat "string list"
  | InvalidEndpoint nat
  | InvalidColor nat

definition is_hex :: "char \<Rightarrow> bool" where
  "is_hex c = (c \<in> set ''0123456789ABCDEFabcdef'')"

definition color_ok :: "string \<Rightarrow> bool" where
  "color_ok s = (length s = 7 \<and> take 1 s = ''#'' \<and> list_all is_hex (drop 1 s))"

definition validate_one :: "nat \<Rightarrow> registry_record option \<Rightarrow> console_msg list" where
  "validate_one index provider =
    (case provider of
       None \<Rightarrow> [ProviderIsNull index]
     | Some r \<Rightarrow>
        (let missing = map fst (filter (\<lambda>(field, v). \<not> truthy_str v)
               [(''id'', r_id r), (''name'', r_name r), (''endpoint'', r_endpoint r),
                (''pingPath'', r_pingPath r), (''color'', r_color r)])
         in (if length missing > 0 then [MissingFields index missing] else []) @
            (if truthy_str (r_endpoint r) \<and> take 4 (the (r_endpoint r)) \<noteq> ''http''
             then [InvalidEndpoint index] else []) @
            (if truthy_str (r_color r) \<and> \<not> color_ok (the (r_color r))
             then [InvalidColor index] else [])))"

definition validateProviders :: "registry_record option list \<Rightarrow> console_msg list" where
  "validateProviders reg = concat (map (\<lambda>(index, provider). validate_one index provider)
     (zip [0..<length reg] reg))"

text \<open>The monitor object.\<close>

record monitor =
  providers :: "vprovider list"
  isMonitoring :: bool
  monitoringInterval :: "nat option"
  testMode :: string
  totalTests :: nat

text \<open>\<open>.filter(Boolean)\<close> on an array whose entries are objects or \<open>null\<close>.\<close>

fun filter_Boolean :: "'a option list \<Rightarrow> 'a list" where
  "filter_Boolean [] = []"
| "filter_Boolean (None # xs) = filter_Boolean xs"
| "filter_Boolean (Some x # xs) = x # filter_Boolean xs"

text \<open>
  The constructor. Its argument is the global \<open>API_PROVIDERS\<close>: \<open>None\<close> when it is
  undefined or not an array, and an entry of the array is \<open>None\<close> when it is \<open>null\<close> or
  \<open>undefined\<close>. The function mapped over the array is \<open>instantiate\<close>; its spread
  \<open>...provider\<close> copies the fields of the record.
\<close>

definition instantiate :: "registry_record \<Rightarrow> vprovider" where
  "instantiate r =
    \<lparr>p_id = r_id r, p_name = r_name r, p_endpoint = r_endpoint r,
     p_pingPath = r_pingPath r, p_color = r_color r,
     p_requiresAuth = r_requiresAuth r,
     p_stats = \<lparr>st_current = JNull, st_min = PInf, st_max = Fin 0,
       st_avg = Fin 0, st_total = Fin 0, st_count = Fin 0,
       st_successes = Fin 0, st_failures = Fin 0, st_history = []\<rparr>,
     p_status = Idle\<rparr>"

definition new_LatencyMonitor :: "registry_record option list option \<Rightarrow> monitor" where
  "new_LatencyMonitor reg =
    \<lparr>providers =
       (case reg of
          None \<Rightarrow> []
        | Some rs \<Rightarrow> filter_Boolean (map (\<lambda>provider.
            case provider of
              None \<Rightarrow> None
            | Some r \<Rightarrow> Some (instantiate r)) rs)),
     isMonitoring = False, monitoringInterval = None, testMode = ''ping'',
     totalTests = 0\<rparr>"

text \<open>The registry record a provider was made from.\<close>

definition identity_of :: "'s provider \<Rightarrow> registry_record" where
  "identity_of p = \<lparr>r_id = p_id p, r_name = p_name p, r_endpoint = p_endpoint p,
     r_pingPath = p_pingPath p, r_color = p_color p, r_requiresAuth = p_requiresAuth p\<rparr>"

text \<open>\<open>clearStats()\<close>.\<close>

definition clearStats :: "monitor \<Rightarrow> monitor" where
  "clearStats m =
    m\<lparr>providers := map (\<lambda>provider.
         provider\<lparr>p_stats := \<lparr>st_current = JNull, st_min = PInf, st_max = Fin 0,
                     st_avg = Fin 0, st_total = Fin 0, st_count = Fin 0,
                     st_successes = Fin 0, st_failures = Fin 0, st_history = []\<rparr>,
                   p_status := Idle\<rparr>) (providers m),
      totalTests := 0\<rparr>"

text \<open>
  \<open>getFastestProvider()\<close>: \<open>filter\<close>, then \<open>reduce\<close> without an initial value, which
  starts from the first element.
\<close>

definition getFastestProvider :: "monitor \<Rightarrow> vprovider option" where
  "getFastestProvider m =
    (let online = filter (\<lambda>p. typeof_number (st_current (p_stats p))) (providers m)
     in if length online = 0 then None
        else Some (foldl (\<lambda>fastest current.
               if js_lt (the_num (st_current (p_stats current)))
                        (the_num (st_current (p_stats fastest)))
               then current else fastest) (hd online) (tl online)))"

text \<open>
  The same in the words of the specification: among the providers whose \<open>current\<close> is
  present, the first in registry order whose value is not above that of any other.
\<close>

definition current_latency :: "vprovider \<Rightarrow> jsnum" where
  "current_latency p = the_num (st_current (p_stats p))"

definition has_current :: "vprovider \<Rightarrow> bool" where
  "has_current p = typeof_number (st_current (p_stats p))"

definition fastest_spec :: "vprovider list \<Rightarrow> vprovider option" where
  "fastest_spec ps =
    (let present = filter has_current ps
     in find (\<lambda>p. list_all (\<lambda>q. js_le (current_latency p) (current_latency q)) present)
          present)"

section \<open>Probes\<close>

text \<open>
  What the \<open>fetch\<close> of a probe does: it resolves, it rejects with an \<open>AbortError\<close>
  (the timer of 10000 ms fired and aborted it), it rejects with another reason that has
  properties (an error object, a string), or it rejects with \<open>null\<close> or \<open>undefined\<close> as
  the reason.
\<close>

datatype fetch_outcome = Resolved | RejectedAbortError | RejectedOther | RejectedNoReason

text \<open>
  \<open>pingTest(provider)\<close>. The second argument says whether \<open>AbortController\<close> is defined.
  Without it the \<open>fetch\<close> has no inner \<open>try\<close>: a rejection reaches the outer \<open>catch\<close>,
  which returns \<open>false\<close>. With it the inner \<open>catch\<close> reads \<open>error.name\<close>; on a reason
  that is \<open>null\<close> or \<open>undefined\<close> that read throws, and the outer \<open>catch\<close> returns
  \<open>false\<close>.
\<close>

definition pingTest :: "vprovider \<Rightarrow> bool \<Rightarrow> fetch_outcome \<Rightarrow> bool" where
  "pingTest provider abortController net =
    (if \<not> truthy_str (p_endpoint provider) \<or> \<not> truthy_str (p_pingPath provider) then False
     else if \<not> abortController then
       (case net of Resolved \<Rightarrow> True | RejectedAbortError \<Rightarrow> False
        | RejectedOther \<Rightarrow> False | RejectedNoReason \<Rightarrow> False)
     else
       (case net of Resolved \<Rightarrow> True | RejectedAbortError \<Rightarrow> False
        | RejectedOther \<Rightarrow> True | RejectedNoReason \<Rightarrow> False))"

definition simpleRequest :: "vprovider \<Rightarrow> bool \<Rightarrow> fetch_outcome \<Rightarrow> bool" where
  "simpleRequest provider abortController net = pingTest provider abortController net"

definition fullRequest :: "vprovider \<Rightarrow> bool \<Rightarrow> fetch_outcome \<Rightarrow> bool" where
  "fullRequest provider abortController net = pingTest provider abortController net"

text \<open>What the environment gives to one run of \<open>testProvider\<close>.\<close>

record probe_env =
  performance_now :: bool
  abort_controller :: bool
  startTime :: jsnum
  endTime :: jsnum
  fetched :: fetch_outcome
  date_now :: nat

text \<open>
  \<open>testProvider(provider)\<close> in two parts: up to the \<open>await\<close> of the probe, and from
  there on. The listener of \<open>notifyUpdate\<close> is called inside a \<open>try\<close> and is not part of
  the model.
\<close>

definition testProvider_begin :: "vprovider \<Rightarrow> vprovider" where
  "testProvider_begin provider = provider\<lparr>p_status := Testing\<rparr>"

definition testProvider_resume :: "string \<Rightarrow> vprovider \<Rightarrow> probe_env \<Rightarrow> vprovider" where
  "testProvider_resume mode provider env =
    (if \<not> performance_now env then
       (updateStats provider JNull False (date_now env))\<lparr>p_status := Offline\<rparr>
     else
       (let success =
              (if mode = ''ping'' then pingTest provider (abort_controller env) (fetched env)
               else if mode = ''simple'' then simpleRequest provider (abort_controller env) (fetched env)
               else fullRequest provider (abort_controller env) (fetched env));
            latency = math_round (js_sub (endTime env) (startTime env))
        in if num_isNaN latency \<or> js_lt latency (Fin 0) then
             (updateStats provider JNull False (date_now env))\<lparr>p_status := Offline\<rparr>
           else if success then
             (updateStats provider (JNum latency) True (date_now env))\<lparr>p_status := Online\<rparr>
           else
             (updateStats provider JNull False (date_now env))\<lparr>p_status := Offline\<rparr>))"

definition testProvider :: "string \<Rightarrow> vprovider \<Rightarrow> probe_env \<Rightarrow> vprovider" where
  "testProvider mode provider env = testProvider_resume mode (testProvider_begin provider) env"

section \<open>A probe round\<close>

text \<open>
  \<open>runTests()\<close> starts \<open>testProvider\<close> for every provider in registry order, which runs
  each up to its \<open>await\<close>, and then waits at \<open>await Promise.allSettled(promises)\<close>.
  On the one event loop the probes then settle one at a time, in an order and with
  outcomes that the network decides; when none is left the \<open>await\<close> returns and
  \<open>this.totalTests++\<close> runs. A round is a state of the monitor together with the
  indices of the probes in flight and a flag for the return of the \<open>await\<close>; an event
  is the settling of one probe or that return. An event that cannot happen in a state
  (a probe that is not in flight, the return while a probe is in flight) gives \<open>None\<close>.
  \<open>testProvider\<close> has a \<open>catch\<close> around all it does after the first assignment, so
  its promise never rejects. \<open>this.providers\<close> is an array in every monitor the
  constructor makes, so the first guard of \<open>runTests\<close> has no input here.
\<close>

record round = monitor +
  pending :: "nat list"
  joined :: bool

datatype event = Settle nat probe_env | AllSettled

definition runTests_begin :: "monitor \<Rightarrow> round" where
  "runTests_begin m =
    \<lparr>providers = map testProvider_begin (providers m),
     isMonitoring = isMonitoring m, monitoringInterval = monitoringInterval m,
     testMode = testMode m, totalTests = totalTests m,
     pending = [0..<length (providers m)], joined = False\<rparr>"

fun round_step :: "round \<Rightarrow> event \<Rightarrow> round option" where
  "round_step r (Settle i env) =
     (if i \<in> set (pending r)
      then Some (r\<lparr>providers := (providers r)
                     [i := testProvider_resume (testMode r) (providers r ! i) env],
                   pending := removeAll i (pending r)\<rparr>)
      else None)"
| "round_step r AllSettled =
     (if pending r = [] \<and> \<not> joined r
      then Some (r\<lparr>totalTests := totalTests r + 1, joined := True\<rparr>)
      else None)"

fun round_run :: "round \<Rightarrow> event list \<Rightarrow> round option" where
  "round_run r [] = Some r"
| "round_run r (e # es) =
     (case round_step r e of None \<Rightarrow> None | Some r' \<Rightarrow> round_run r' es)"

text \<open>
  A whole round: the probes settle in the order of the list, then the \<open>await\<close> returns.
\<close>

definition runTests :: "monitor \<Rightarrow> (nat \<times> probe_env) list \<Rightarrow> round option" where
  "runTests m settled =
     round_run (runTests_begin m) (map (\<lambda>(i, env). Settle i env) settled @ [AllSettled])"

section \<open>The snapshot of \<open>getStats\<close>\<close>

text \<open>
  What a caller can do with the result of \<open>getStats()\<close> depends on which objects the
  result shares with the monitor, so here the objects live in a store: an address is an
  index into a list of cells, and a new object is put at the end. A provider object
  holds the address of its \<open>stats\<close> object, which holds the address of its \<open>history\<close>
  array. A read outside the store gives \<open>None\<close>.
\<close>

type_synonym addr = nat

record 's snapshot =
  s_id :: string
  s_name :: string
  s_color :: string
  s_status :: status
  s_stats :: 's

datatype cell =
    ArrayObj "sample list"
  | StatsObj "addr stats"
  | ProviderObj "addr provider"
  | SnapshotObj "addr snapshot"

type_synonym store = "cell list"

definition lookup :: "store \<Rightarrow> addr \<Rightarrow> cell option" where
  "lookup h a = (if a < length h then Some (h ! a) else None)"

text \<open>
  \<open>getStats()\<close> over the array of provider addresses. For each provider the spread
  \<open>{ ...provider.stats }\<close> makes a new \<open>stats\<close> object with the same field values, the
  address of the \<open>history\<close> array among them, and the object literal makes a new record.
  \<open>status\<close> is one of four non-empty strings, so \<open>provider.status || 'idle'\<close> is
  \<open>provider.status\<close>. Every provider of a monitor is an object with a \<open>stats\<close> object
  (\<open>well_formed\<close> below); an address that is not one is passed over here, where the
  source would pass over a \<open>null\<close> entry and give a record with an empty \<open>stats\<close> to
  a provider without one.
\<close>

fun getStats :: "store \<Rightarrow> addr list \<Rightarrow> store \<times> addr list" where
  "getStats h [] = (h, [])"
| "getStats h (a # as) =
     (case lookup h a of
        Some (ProviderObj provider) \<Rightarrow>
          (case lookup h (p_stats provider) of
             Some (StatsObj st) \<Rightarrow>
               (let stats_addr = length h;
                    h1 = h @ [StatsObj st];
                    rec_addr = length h1;
                    h2 = h1 @ [SnapshotObj
                      \<lparr>s_id = str_or (p_id provider) ''unknown'',
                       s_name = str_or (p_name provider) ''Unknown'',
                       s_color = str_or (p_color provider) ''#000000'',
                       s_status = p_status provider,
                       s_stats = stats_addr\<rparr>];
                    (h3, rest) = getStats h2 as
                in (h3, rec_addr # rest))
           | _ \<Rightarrow> getStats h as)
      | _ \<Rightarrow> getStats h as)"

text \<open>What the monitor sees of its providers: each provider with its statistics by value.\<close>

definition read_stats :: "store \<Rightarrow> addr \<Rightarrow> vstats option" where
  "read_stats h a =
    (case lookup h a of
       Some (StatsObj st) \<Rightarrow>
         (case lookup h (st_history st) of
            Some (ArrayObj xs) \<Rightarrow> Some
              \<lparr>st_current = st_current st, st_min = st_min st, st_max = st_max st,
               st_avg = st_avg st, st_total = st_total st, st_count = st_count st,
               st_successes = st_successes st, st_failures = st_failures st,
               st_history = xs\<rparr>
          | _ \<Rightarrow> None)
     | _ \<Rightarrow> None)"

definition read_provider :: "store \<Rightarrow> addr \<Rightarrow> vprovider option" where
  "read_provider h a =
    (case lookup h a of
       Some (ProviderObj p) \<Rightarrow>
         (case read_stats h (p_stats p) of
            Some st \<Rightarrow> Some
              \<lparr>p_id = p_id p, p_name = p_name p, p_endpoint = p_endpoint p,
               p_pingPath = p_pingPath p, p_color = p_color p,
               p_requiresAuth = p_requiresAuth p, p_stats = st, p_status = p_status p\<rparr>
          | None \<Rightarrow> None)
     | _ \<Rightarrow> None)"

definition monitor_view :: "store \<Rightarrow> addr list \<Rightarrow> vprovider option list" where
  "monitor_view h provs = map (read_provider h) provs"

text \<open>The same reading of a record of the snapshot.\<close>

definition read_snapshot :: "store \<Rightarrow> addr \<Rightarrow> vstats snapshot option" where
  "read_snapshot h a =
    (case lookup h a of
       Some (SnapshotObj s) \<Rightarrow>
         (case read_stats h (s_stats s) of
            Some st \<Rightarrow> Some
              \<lparr>s_id = s_id s, s_name = s_name s, s_color = s_color s,
               s_status = s_status s, s_stats = st\<rparr>
          | None \<Rightarrow> None)
     | _ \<Rightarrow> None)"

text \<open>
  Every provider of the monitor is a provider object in the store, with its \<open>stats\<close>
  object and its \<open>history\<close> array.
\<close>

definition well_formed :: "store \<Rightarrow> addr list \<Rightarrow> bool" where
  "well_formed h provs = list_all (\<lambda>a. read_provider h a \<noteq> None) provs"

text \<open>
  The addresses a caller reaches from a record of the snapshot: the record, its
  \<open>stats\<close> object, and the \<open>history\<close> array of that.
\<close>

definition snapshot_stats_addr :: "store \<Rightarrow> addr \<Rightarrow> addr option" where
  "snapshot_stats_addr h a =
    (case lookup h a of Some (SnapshotObj s) \<Rightarrow> Some (s_stats s) | _ \<Rightarrow> None)"

definition snapshot_history_addr :: "store \<Rightarrow> addr \<Rightarrow> addr option" where
  "snapshot_history_addr h a =
    (case snapshot_stats_addr h a of
       Some sa \<Rightarrow> (case lookup h sa of Some (StatsObj st) \<Rightarrow> Some (st_history st) | _ \<Rightarrow> None)
     | None \<Rightarrow> None)"

text \<open>\<open>history.push(x)\<close> on the array at an address.\<close>

definition array_push :: "store \<Rightarrow> addr \<Rightarrow> sample \<Rightarrow> store" where
  "array_push h a x =
    (case lookup h a of Some (ArrayObj xs) \<Rightarrow> h[a := ArrayObj (xs @ [x])] | _ \<Rightarrow> h)"

text \<open>The address of the \<open>history\<close> array of a provider.\<close>

definition provider_history_addr :: "store \<Rightarrow> addr \<Rightarrow> addr option" where
  "provider_history_addr h a =
    (case lookup h a of
       Some (ProviderObj p) \<Rightarrow>
         (case lookup h (p_stats p) of Some (StatsObj st) \<Rightarrow> Some (st_history st) | _ \<Rightarrow> None)
     | _ \<Rightarrow> None)"

text \<open>
  The three objects of a provider, as the constructor and \<open>clearStats\<close> make them (an
  array, a \<open>stats\<close> object that refers to it, a provider object that refers to that),
  put into the store with the values of a provider that is given by value.
\<close>

definition store_provider :: "store \<Rightarrow> vprovider \<Rightarrow> store \<times> addr" where
  "store_provider h p =
    (let st = p_stats p
     in (h @ [ArrayObj (st_history st),
              StatsObj \<lparr>st_current = st_current st, st_min = st_min st, st_max = st_max st,
                st_avg = st_avg st, st_total = st_total st, st_count = st_count st,
                st_successes = st_successes st, st_failures = st_failures st,
                st_history = length h\<rparr>,
              ProviderObj \<lparr>p_id = p_id p, p_name = p_name p, p_endpoint = p_endpoint p,
                p_pingPath = p_pingPath p, p_color = p_color p,
                p_requiresAuth = p_requiresAuth p, p_stats = Suc (length h),
                p_status = p_status p\<rparr>],
         Suc (Suc (length h))))"

section \<open>Properties of \<open>updateStats\<close>\<close>

lemma js_or_zero: "\<not> num_isNaN a \<Longrightarrow> js_or a (Fin 0) = a"
  by (cases a) (auto simp: js_or_def)

lemma js_or_Fin_zero: "js_or (Fin x) (Fin 0) = Fin x"
  by (simp add: js_or_def)

lemma js_or_Fin_PInf: "x \<noteq> 0 \<Longrightarrow> js_or (Fin x) PInf = Fin x"
  by (simp add: js_or_def)

lemma math_min_Fin: "math_min (Fin a) (Fin b) = Fin (min a b)"
  by (auto simp: math_min_def)

lemma math_max_Fin: "math_max (Fin a) (Fin b) = Fin (max a b)"
  by (auto simp: math_max_def)

text \<open>The two branches of \<open>updateStats\<close>, each as one update of the record.\<close>

lemma updateStats_rejected:
  "\<not> accepted lat success \<Longrightarrow>
   updateStats p lat success now =
     p\<lparr>p_stats := (p_stats p)
        \<lparr>st_count := js_add (js_or (st_count (p_stats p)) (Fin 0)) (Fin 1),
         st_failures := js_add (js_or (st_failures (p_stats p)) (Fin 0)) (Fin 1),
         st_current := JNull\<rparr>\<rparr>"
  by (auto simp: accepted_def updateStats_def Let_def)

lemma updateStats_accepted:
  "accepted lat success \<Longrightarrow>
   updateStats p lat success now =
     (let s = p_stats p;
          succ = js_add (js_or (st_successes s) (Fin 0)) (Fin 1);
          tot = js_add (js_or (st_total s) (Fin 0)) (the_num lat);
          h = st_history s @ [\<lparr>timestamp = now, latency = the_num lat\<rparr>]
      in p\<lparr>p_stats := s
           \<lparr>st_count := js_add (js_or (st_count s) (Fin 0)) (Fin 1),
            st_successes := succ,
            st_current := lat,
            st_total := tot,
            st_avg := (if js_lt (Fin 0) succ then math_round (js_div tot succ) else st_avg s),
            st_min := math_min (js_or (st_min s) PInf) (the_num lat),
            st_max := math_max (js_or (st_max s) (Fin 0)) (the_num lat),
            st_history := (if length h > 100 then tl h else h)\<rparr>\<rparr>)"
  by (auto simp: accepted_def updateStats_def Let_def)

lemma updateAll_append: "updateAll p (cs @ ds) = updateAll (updateAll p cs) ds"
  by (induction cs arbitrary: p) auto

lemma updateAll_snoc:
  "updateAll p (cs @ [(lat, success, now)]) = updateStats (updateAll p cs) lat success now"
  by (simp add: updateAll_append)

subsection \<open>The counters\<close>

lemma js_eq_succ_left:
  "js_eq c (js_add a b) \<Longrightarrow> js_eq (js_add c (Fin 1)) (js_add (js_add a (Fin 1)) b)"
  by (cases c; cases a; cases b) (auto simp: js_eq_def)

lemma js_eq_succ_right:
  "js_eq c (js_add a b) \<Longrightarrow> js_eq (js_add c (Fin 1)) (js_add a (js_add b (Fin 1)))"
  by (cases c; cases a; cases b) (auto simp: js_eq_def)

lemma js_eq_sum_numbers:
  "js_eq c (js_add a b) \<Longrightarrow> \<not> num_isNaN c \<and> \<not> num_isNaN a \<and> \<not> num_isNaN b"
  by (cases c; cases a; cases b) (auto simp: js_eq_def)

text \<open>
  C3. Whatever the arguments of a call of \<open>updateStats\<close>, if
  \<open>count == successes + failures\<close> holds before the call then it holds after it, \<open>count\<close>
  has grown by one, and exactly one of \<open>successes\<close> and \<open>failures\<close> has grown by one
  while the other is unchanged: \<open>successes\<close> when the call takes the first branch,
  \<open>failures\<close> otherwise.
\<close>

theorem updateStats_count_invariant:
  assumes "js_eq (st_count (p_stats p))
             (js_add (st_successes (p_stats p)) (st_failures (p_stats p)))"
  shows "(let s = p_stats p; s' = p_stats (updateStats p lat success now) in
      js_eq (st_count s') (js_add (st_successes s') (st_failures s')) \<and>
      st_count s' = js_add (st_count s) (Fin 1) \<and>
      (if accepted lat success
       then st_successes s' = js_add (st_successes s) (Fin 1) \<and> st_failures s' = st_failures s
       else st_successes s' = st_successes s \<and> st_failures s' = js_add (st_failures s) (Fin 1)))"
proof -
  from js_eq_sum_numbers[OF assms]
  have n: "js_or (st_count (p_stats p)) (Fin 0) = st_count (p_stats p)"
    "js_or (st_successes (p_stats p)) (Fin 0) = st_successes (p_stats p)"
    "js_or (st_failures (p_stats p)) (Fin 0) = st_failures (p_stats p)"
    by (simp_all add: js_or_zero)
  show ?thesis
  proof (cases "accepted lat success")
    case True
    then show ?thesis using js_eq_succ_left[OF assms]
      by (simp add: updateStats_accepted Let_def n)
  next
    case False
    then show ?thesis using js_eq_succ_right[OF assms]
      by (simp add: updateStats_rejected Let_def n)
  qed
qed

theorem updateStats_count_invariant_witness:
  "js_eq (st_count (p_stats (instantiate (the (hd API_PROVIDERS)))))
     (js_add (st_successes (p_stats (instantiate (the (hd API_PROVIDERS)))))
             (st_failures (p_stats (instantiate (the (hd API_PROVIDERS)))))) \<and>
   st_count (p_stats (updateStats (instantiate (the (hd API_PROVIDERS)))
      (JNum (Fin 120)) True 1000)) = Fin 1 \<and>
   st_successes (p_stats (updateStats (instantiate (the (hd API_PROVIDERS)))
      (JNum (Fin 120)) True 1000)) = Fin 1 \<and>
   st_failures (p_stats (updateStats (instantiate (the (hd API_PROVIDERS)))
      (JNum (Fin 120)) True 1000)) = Fin 0"
proof -
  have h: "js_eq (st_count (p_stats (instantiate (the (hd API_PROVIDERS)))))
     (js_add (st_successes (p_stats (instantiate (the (hd API_PROVIDERS)))))
             (st_failures (p_stats (instantiate (the (hd API_PROVIDERS))))))"
    by (simp add: instantiate_def js_eq_def)
  have a: "accepted (JNum (Fin 120)) True" by (simp add: accepted_def)
  show ?thesis
    using h a updateStats_count_invariant[OF h, of "JNum (Fin 120)" True 1000]
    by (simp add: Let_def instantiate_def)
qed

text \<open>After any sequence of calls on a new provider the three counters still agree.\<close>

lemma updateAll_count_invariant:
  "js_eq (st_count (p_stats p)) (js_add (st_successes (p_stats p)) (st_failures (p_stats p)))
   \<Longrightarrow> js_eq (st_count (p_stats (updateAll p cs)))
        (js_add (st_successes (p_stats (updateAll p cs))) (st_failures (p_stats (updateAll p cs))))"
proof (induction cs arbitrary: p)
  case Nil
  then show ?case by simp
next
  case (Cons c cs)
  obtain lat success now where c: "c = (lat, success, now)" by (cases c) auto
  have "js_eq (st_count (p_stats (updateStats p lat success now)))
     (js_add (st_successes (p_stats (updateStats p lat success now)))
             (st_failures (p_stats (updateStats p lat success now))))"
  proof (cases "accepted lat success")
    case True
    then show ?thesis
      using js_eq_succ_left[OF Cons.prems] js_eq_sum_numbers[OF Cons.prems]
      by (simp add: updateStats_accepted Let_def js_or_zero)
  next
    case False
    then show ?thesis
      using js_eq_succ_right[OF Cons.prems] js_eq_sum_numbers[OF Cons.prems]
      by (simp add: updateStats_rejected js_or_zero)
  qed
  from Cons.IH[OF this] show ?case by (simp add: c)
qed

subsection \<open>The history\<close>

lemma last100_trim:
  assumes "length h \<le> 100"
  shows "drop (length (trim (h @ [x]) @ r) - 100) (trim (h @ [x]) @ r) =
         drop (length (h @ x # r) - 100) (h @ x # r)"
proof (cases "length h = 100")
  case True
  then obtain a h' where h: "h = a # h'" by (cases h) auto
  with True have "length h' = 99" by simp
  then show ?thesis by (simp add: h trim_def)
next
  case False
  with assms have "length h < 100" by simp
  then show ?thesis by (simp add: trim_def)
qed

lemma length_trim: "length h \<le> 100 \<Longrightarrow> length (trim (h @ [x])) \<le> 100"
  by (simp add: trim_def)

lemma history_step:
  "st_history (p_stats (updateStats p lat success now)) =
    (if accepted lat success
     then trim (st_history (p_stats p) @ [\<lparr>timestamp = now, latency = the_num lat\<rparr>])
     else st_history (p_stats p))"
  by (simp add: updateStats_accepted updateStats_rejected Let_def trim_def)

lemma history_general:
  "length (st_history (p_stats p)) \<le> 100 \<Longrightarrow>
   st_history (p_stats (updateAll p cs)) =
     drop (length (st_history (p_stats p) @ samples_of cs) - 100)
          (st_history (p_stats p) @ samples_of cs)"
proof (induction cs arbitrary: p)
  case Nil
  then show ?case by (simp add: samples_of_def)
next
  case (Cons c cs)
  obtain lat success now where c: "c = (lat, success, now)" by (cases c) auto
  let ?p' = "updateStats p lat success now"
  let ?h = "st_history (p_stats p)"
  let ?x = "\<lparr>timestamp = now, latency = the_num lat\<rparr>"
  have run: "updateAll p (c # cs) = updateAll ?p' cs" by (simp add: c)
  show ?case
  proof (cases "accepted lat success")
    case True
    have h': "st_history (p_stats ?p') = trim (?h @ [?x])"
      using True by (simp add: history_step)
    have len: "length (st_history (p_stats ?p')) \<le> 100"
      using Cons.prems by (simp only: h' length_trim)
    have s: "samples_of (c # cs) = ?x # samples_of cs"
      using True by (simp add: samples_of_def c)
    have "st_history (p_stats (updateAll p (c # cs))) =
        drop (length (trim (?h @ [?x]) @ samples_of cs) - 100) (trim (?h @ [?x]) @ samples_of cs)"
      using Cons.IH[OF len] by (simp only: run h')
    also have "\<dots> = drop (length (?h @ ?x # samples_of cs) - 100) (?h @ ?x # samples_of cs)"
      by (rule last100_trim[OF Cons.prems])
    finally show ?thesis by (simp only: s)
  next
    case False
    have h': "st_history (p_stats ?p') = ?h"
      using False by (simp add: history_step)
    have len: "length (st_history (p_stats ?p')) \<le> 100"
      using Cons.prems by (simp only: h')
    have s: "samples_of (c # cs) = samples_of cs"
      using False by (simp add: samples_of_def c)
    show ?thesis using Cons.IH[OF len] by (simp only: run h' s)
  qed
qed

text \<open>
  C2. After any sequence of calls of \<open>updateStats\<close> on a new provider, \<open>history\<close> is
  the last \<open>min k 100\<close> of the \<open>k\<close> entries of the calls that took the first branch, in
  the order of the calls; a call that took the other branch has no entry. So the
  length is \<open>min k 100\<close>, never more than 100, and the entries that are gone are the
  oldest.
\<close>

theorem history_last_100:
  "st_history (p_stats (updateAll (instantiate r) cs)) =
     drop (length (samples_of cs) - 100) (samples_of cs) \<and>
   length (st_history (p_stats (updateAll (instantiate r) cs))) =
     min (length (samples_of cs)) 100"
proof -
  have "length (st_history (p_stats (instantiate r))) \<le> 100"
    by (simp add: instantiate_def)
  from history_general[OF this, of cs] show ?thesis
    by (simp add: instantiate_def min_def)
qed

subsection \<open>Minimum, maximum and average\<close>

lemma accepted_Fin: "accepted (JNum (Fin l)) True"
  by (simp add: accepted_def)

text \<open>One successful probe with a finite latency, on statistics with finite counters.\<close>

lemma updateStats_Fin:
  assumes "p_stats p = \<lparr>st_current = c, st_min = mn, st_max = Fin mx, st_avg = av,
      st_total = Fin tot, st_count = Fin (of_nat n), st_successes = Fin (of_nat k),
      st_failures = f, st_history = h\<rparr>"
  shows "p_stats (updateStats p (JNum (Fin l)) True now) =
     \<lparr>st_current = JNum (Fin l), st_min = math_min (js_or mn PInf) (Fin l),
      st_max = Fin (max mx l),
      st_avg = Fin (of_int (round ((tot + l) / of_nat (Suc k)))),
      st_total = Fin (tot + l), st_count = Fin (of_nat (Suc n)),
      st_successes = Fin (of_nat (Suc k)), st_failures = f,
      st_history = trim (h @ [\<lparr>timestamp = now, latency = Fin l\<rparr>])\<rparr>"
proof -
  have pos: "(0::rat) < of_nat k + 1" by (simp add: add_pos_nonneg)
  then have nz: "(of_nat k + 1 :: rat) \<noteq> 0" by simp
  show ?thesis
    using pos nz
    by (simp add: updateStats_accepted[OF accepted_Fin] assms Let_def js_or_Fin_zero
        math_max_Fin round_def trim_def add.commute)
qed

text \<open>
  For successful probes whose latencies are all greater than zero the statistics are
  the minimum, the maximum, the rounded mean and the number of the latencies.
\<close>

lemma updateAll_positive_latencies:
  assumes "xs \<noteq> []" "\<forall>x\<in>set xs. 0 < fst x"
  shows "\<exists>c h. p_stats (updateAll (instantiate r) (map ok_probe xs)) =
     \<lparr>st_current = c, st_min = Fin (Min (fst ` set xs)), st_max = Fin (Max (fst ` set xs)),
      st_avg = Fin (of_int (round (sum_list (map fst xs) / of_nat (length xs)))),
      st_total = Fin (sum_list (map fst xs)), st_count = Fin (of_nat (length xs)),
      st_successes = Fin (of_nat (length xs)), st_failures = Fin 0, st_history = h\<rparr>"
  using assms
proof (induction xs rule: rev_induct)
  case Nil
  then show ?case by simp
next
  case (snoc x xs)
  obtain l t where x: "x = (l, t)" by (cases x) auto
  have l: "0 < l" using snoc.prems by (simp add: x)
  show ?case
  proof (cases "xs = []")
    case True
    have "p_stats (instantiate r) = \<lparr>st_current = JNull, st_min = PInf, st_max = Fin 0,
      st_avg = Fin 0, st_total = Fin 0, st_count = Fin (of_nat 0),
      st_successes = Fin (of_nat 0), st_failures = Fin 0, st_history = []\<rparr>"
      by (simp add: instantiate_def)
    from updateStats_Fin[OF this, of l t] l show ?thesis
      by (simp add: True x ok_probe_def[of "(l, t)"] js_or_def math_min_def max_def)
  next
    case False
    with snoc obtain c h where ih: "p_stats (updateAll (instantiate r) (map ok_probe xs)) =
     \<lparr>st_current = c, st_min = Fin (Min (fst ` set xs)), st_max = Fin (Max (fst ` set xs)),
      st_avg = Fin (of_int (round (sum_list (map fst xs) / of_nat (length xs)))),
      st_total = Fin (sum_list (map fst xs)), st_count = Fin (of_nat (length xs)),
      st_successes = Fin (of_nat (length xs)), st_failures = Fin 0, st_history = h\<rparr>"
      by auto
    have mpos: "0 < Min (fst ` set xs)" using snoc.prems False by simp
    have mn: "Min (insert l (fst ` set xs)) = min (Min (fst ` set xs)) l"
      using False by (simp add: min.commute)
    have mx: "Max (insert l (fst ` set xs)) = max (Max (fst ` set xs)) l"
      using False by (simp add: max.commute)
    have run: "updateAll (instantiate r) (map ok_probe (xs @ [x])) =
       updateStats (updateAll (instantiate r) (map ok_probe xs)) (JNum (Fin l)) True t"
      by (simp add: x ok_probe_def[of "(l, t)"] updateAll_snoc)
    have st: "p_stats (updateAll (instantiate r) (map ok_probe (xs @ [x]))) =
       \<lparr>st_current = JNum (Fin l), st_min = Fin (min (Min (fst ` set xs)) l),
        st_max = Fin (max (Max (fst ` set xs)) l),
        st_avg = Fin (of_int (round ((sum_list (map fst xs) + l) / of_nat (Suc (length xs))))),
        st_total = Fin (sum_list (map fst xs) + l), st_count = Fin (of_nat (Suc (length xs))),
        st_successes = Fin (of_nat (Suc (length xs))), st_failures = Fin 0,
        st_history = trim (h @ [\<lparr>timestamp = t, latency = Fin l\<rparr>])\<rparr>"
      unfolding run using updateStats_Fin[OF ih, of l t] mpos
      by (simp add: js_or_Fin_PInf math_min_Fin)
    show ?thesis unfolding st by (simp add: x mn mx)
  qed
qed

text \<open>
  C1. The specification has \<open>min\<close> equal to the least latency of the successful
  probes. That fails when a probe succeeds with latency 0, which \<open>testProvider\<close>
  passes on (it rejects only a latency below 0): in
  \<open>Math.min(stats.min || Infinity, latency)\<close> a minimum of 0 is falsy and is replaced
  by \<open>Infinity\<close>, so the next probe overwrites it. After two successful probes of the
  first provider of the registry with latencies 0 and 5, \<open>min\<close> is 5, while the minimum
  of the latencies is 0; \<open>max\<close>, \<open>avg\<close> and the counters are as specified.
\<close>

theorem updateStats_min_lost_after_zero:
  "(let s = p_stats (updateAll (instantiate (the (hd API_PROVIDERS)))
              (map ok_probe [(0, 1000), (5, 2000)]))
    in st_min s = Fin 5 \<and> Min (fst ` set [(0::rat, 1000::nat), (5, 2000)]) = 0 \<and>
       st_max s = Fin 5 \<and> st_avg s = Fin 3 \<and> st_count s = Fin 2 \<and>
       st_successes s = Fin 2 \<and> st_failures s = Fin 0)"
  by (simp add: ok_probe_def updateStats_accepted accepted_def Let_def instantiate_def
      js_or_def math_min_def math_max_def)

subsection \<open>A latency that is not a number\<close>

text \<open>
  C10, for a latency that is not a number or is \<open>NaN\<close>. If \<open>updateStats\<close> is called with \<open>success = true\<close> and a latency
  that is not a number (\<open>null\<close>, \<open>undefined\<close>, a string, a boolean) or is \<open>NaN\<close>, the
  call is recorded as a failure: \<open>count\<close> and \<open>failures\<close> grow by one (\<open>js_or c (Fin 0)\<close>
  is \<open>c\<close> for every number \<open>c\<close> but \<open>NaN\<close>), \<open>current\<close> becomes \<open>null\<close>, and nothing else
  of the provider changes.
\<close>

theorem updateStats_not_a_number:
  assumes "\<not> (typeof_number lat \<and> \<not> num_isNaN (the_num lat))"
  shows "updateStats p lat True now =
     p\<lparr>p_stats := (p_stats p)
        \<lparr>st_count := js_add (js_or (st_count (p_stats p)) (Fin 0)) (Fin 1),
         st_failures := js_add (js_or (st_failures (p_stats p)) (Fin 0)) (Fin 1),
         st_current := JNull\<rparr>\<rparr>"
proof -
  from assms have "\<not> accepted lat True" by (auto simp: accepted_def)
  then show ?thesis by (rule updateStats_rejected)
qed

theorem updateStats_not_a_number_witness:
  "\<not> (typeof_number (JNum NaN) \<and> \<not> num_isNaN (the_num (JNum NaN))) \<and>
   p_stats (updateStats (instantiate (the (hd API_PROVIDERS))) (JNum NaN) True 1000) =
     \<lparr>st_current = JNull, st_min = PInf, st_max = Fin 0, st_avg = Fin 0, st_total = Fin 0,
      st_count = Fin 1, st_successes = Fin 0, st_failures = Fin 1, st_history = []\<rparr>"
proof -
  have h: "\<not> (typeof_number (JNum NaN) \<and> \<not> num_isNaN (the_num (JNum NaN)))" by simp
  show ?thesis
    using h updateStats_not_a_number[OF h, of "instantiate (the (hd API_PROVIDERS))" 1000]
    by (simp add: instantiate_def js_or_def)
qed

text \<open>
  The sentence of the specification speaks of every latency that is not a finite number.
  \<open>Infinity\<close> is a number and is not \<open>NaN\<close>, so a call with it takes the first branch:
  it is recorded as a success.
\<close>

theorem updateStats_infinite_latency_counterexample:
  "\<not> finite_number (JNum PInf) \<and>
   p_stats (updateStats (instantiate (the (hd API_PROVIDERS))) (JNum PInf) True 1000) =
     \<lparr>st_current = JNum PInf, st_min = PInf, st_max = PInf, st_avg = PInf, st_total = PInf,
      st_count = Fin 1, st_successes = Fin 1, st_failures = Fin 0,
      st_history = [\<lparr>timestamp = 1000, latency = PInf\<rparr>]\<rparr>"
  by (simp add: updateStats_accepted accepted_def Let_def instantiate_def
      js_or_def math_min_def math_max_def)

section \<open>Properties of the monitor\<close>

subsection \<open>\<open>clearStats\<close>\<close>

text \<open>
  C6. From any state, \<open>clearStats()\<close> gives every provider the \<open>stats\<close> object
  \<open>current = null, min = Infinity, max = 0, avg = 0, total = 0, count = 0, successes = 0,
  failures = 0, history = []\<close> and the status \<open>idle\<close>, sets \<open>totalTests\<close> to 0, and keeps
  the number and order of the providers and the \<open>id\<close>, \<open>name\<close>, \<open>endpoint\<close>,
  \<open>pingPath\<close> and \<open>color\<close> of each.
\<close>

theorem clearStats_resets:
  "map p_stats (providers (clearStats m)) =
     replicate (length (providers m))
       \<lparr>st_current = JNull, st_min = PInf, st_max = Fin 0, st_avg = Fin 0, st_total = Fin 0,
        st_count = Fin 0, st_successes = Fin 0, st_failures = Fin 0, st_history = []\<rparr> \<and>
   map p_status (providers (clearStats m)) = replicate (length (providers m)) Idle \<and>
   totalTests (clearStats m) = 0 \<and>
   map p_id (providers (clearStats m)) = map p_id (providers m) \<and>
   map p_name (providers (clearStats m)) = map p_name (providers m) \<and>
   map p_endpoint (providers (clearStats m)) = map p_endpoint (providers m) \<and>
   map p_pingPath (providers (clearStats m)) = map p_pingPath (providers m) \<and>
   map p_color (providers (clearStats m)) = map p_color (providers m)"
  by (simp add: clearStats_def map_replicate_const comp_def)

subsection \<open>The constructor\<close>

lemma filter_Boolean_map:
  "filter_Boolean (map (\<lambda>provider. case provider of None \<Rightarrow> None | Some r \<Rightarrow> Some (f r)) rs)
     = map f (filter_Boolean rs)"
  by (induction rs rule: filter_Boolean.induct) auto

lemma identity_of_instantiate: "identity_of (instantiate r) = r"
  by (simp add: identity_of_def instantiate_def)

text \<open>The registry of the repository passes \<open>validateProviders\<close> without a message.\<close>

lemma validateProviders_registry: "validateProviders API_PROVIDERS = []"
  by (simp add: API_PROVIDERS_def validateProviders_def
      validate_one_def color_ok_def is_hex_def upt_rec)

text \<open>
  C9, for what the constructor does drop. The constructor drops the entries of the registry that are \<open>null\<close> or
  \<open>undefined\<close> and nothing else: the providers of the monitor are the other records, in
  registry order, each with its fields as they are in the registry, falsy or not. A
  missing registry (\<open>API_PROVIDERS\<close> undefined or not an array) gives no provider.
\<close>

theorem constructor_drops_only_null:
  "map identity_of (providers (new_LatencyMonitor (Some rs))) = filter_Boolean rs \<and>
   length (providers (new_LatencyMonitor (Some rs))) = length (filter (\<lambda>x. x \<noteq> None) rs) \<and>
   providers (new_LatencyMonitor None) = []"
proof -
  have "length (filter_Boolean rs) = length (filter (\<lambda>x. x \<noteq> None) rs)"
    by (induction rs rule: filter_Boolean.induct) auto
  then show ?thesis
    by (simp add: new_LatencyMonitor_def filter_Boolean_map comp_def identity_of_instantiate)
qed

text \<open>
  The sentence of the specification has a record with a falsy required field dropped. A
  record with an empty \<open>id\<close> and no \<open>endpoint\<close> is reported by \<open>validateProviders\<close> and
  is a provider of the monitor all the same.
\<close>

theorem constructor_keeps_falsy_fields_counterexample:
  "\<not> truthy_str (r_id \<lparr>r_id = Some [], r_name = Some ''Broken'', r_endpoint = None,
       r_pingPath = Some ''/'', r_color = Some ''#ffffff'', r_requiresAuth = False\<rparr>) \<and>
   validateProviders [Some \<lparr>r_id = Some [], r_name = Some ''Broken'', r_endpoint = None,
       r_pingPath = Some ''/'', r_color = Some ''#ffffff'', r_requiresAuth = False\<rparr>]
     = [MissingFields 0 [''id'', ''endpoint'']] \<and>
   map identity_of (providers (new_LatencyMonitor (Some
      [Some \<lparr>r_id = Some [], r_name = Some ''Broken'', r_endpoint = None,
       r_pingPath = Some ''/'', r_color = Some ''#ffffff'', r_requiresAuth = False\<rparr>])))
     = [\<lparr>r_id = Some [], r_name = Some ''Broken'', r_endpoint = None,
       r_pingPath = Some ''/'', r_color = Some ''#ffffff'', r_requiresAuth = False\<rparr>]"
  by (simp add: new_LatencyMonitor_def identity_of_instantiate validateProviders_def
      validate_one_def color_ok_def is_hex_def)

subsection \<open>\<open>pingTest\<close>\<close>

text \<open>
  Every outcome of \<open>pingTest\<close> for a provider with a non-empty \<open>endpoint\<close> and
  \<open>pingPath\<close>. Where \<open>AbortController\<close> is defined it returns \<open>true\<close> for a \<open>fetch\<close>
  that resolves and for a rejection with a reason other than an \<open>AbortError\<close>,
  \<open>null\<close> and \<open>undefined\<close>; where it is not defined, only for a \<open>fetch\<close> that resolves.
\<close>

lemma pingTest_outcomes:
  assumes "truthy_str (p_endpoint p)" "truthy_str (p_pingPath p)"
  shows "pingTest p True net = (net = Resolved \<or> net = RejectedOther)"
    and "pingTest p False net = (net = Resolved)"
  using assms by (cases net; simp add: pingTest_def)+

text \<open>
  C5. The specification has \<open>pingTest\<close> return \<open>false\<close> exactly when the timer of 10
  seconds aborted the \<open>fetch\<close>, and \<open>true\<close> for every other outcome, a rejection that
  is not an abort among them. For every provider with a non-empty \<open>endpoint\<close> and
  \<open>pingPath\<close> that fails where \<open>AbortController\<close> is not defined: the fallback branch
  has no inner \<open>try\<close>, so a rejection that is not an abort reaches the outer \<open>catch\<close>
  and \<open>pingTest\<close> returns \<open>false\<close>, while the branch with \<open>AbortController\<close> returns
  \<open>true\<close> for the same rejection (\<open>For no-cors mode, even errors mean the endpoint
  exists\<close>).
\<close>

theorem pingTest_fallback_rejection:
  assumes "truthy_str (p_endpoint p)" "truthy_str (p_pingPath p)"
  shows "pingTest p False RejectedOther = False \<and> pingTest p True RejectedOther = True"
  using assms by (simp add: pingTest_def)

theorem pingTest_fallback_rejection_witness:
  "truthy_str (p_endpoint (instantiate (the (hd API_PROVIDERS)))) \<and>
   truthy_str (p_pingPath (instantiate (the (hd API_PROVIDERS)))) \<and>
   RejectedOther \<noteq> RejectedAbortError \<and>
   pingTest (instantiate (the (hd API_PROVIDERS))) False RejectedOther = False \<and>
   pingTest (instantiate (the (hd API_PROVIDERS))) True RejectedOther = True"
proof -
  have e: "truthy_str (p_endpoint (instantiate (the (hd API_PROVIDERS))))"
    by (simp add: instantiate_def API_PROVIDERS_def)
  have q: "truthy_str (p_pingPath (instantiate (the (hd API_PROVIDERS))))"
    by (simp add: instantiate_def API_PROVIDERS_def)
  show ?thesis
    using e q pingTest_fallback_rejection[OF e q] by simp
qed

text \<open>
  The same outer \<open>catch\<close> is reached where \<open>AbortController\<close> is defined and the
  reason of the rejection is \<open>null\<close> or \<open>undefined\<close>.
\<close>

lemma pingTest_rejection_without_reason:
  "pingTest (instantiate (the (hd API_PROVIDERS))) True RejectedNoReason = False"
  by (simp add: pingTest_def instantiate_def API_PROVIDERS_def)

subsection \<open>\<open>getFastestProvider\<close>\<close>

lemma js_le_refl: "\<not> num_isNaN a \<Longrightarrow> js_le a a"
  by (cases a) (auto simp: js_le_def)

lemma js_lt_imp_le: "js_lt a b \<Longrightarrow> js_le a b"
  by (cases a; cases b) (auto simp: js_le_def)

lemma js_lt_not_le: "js_lt a b \<Longrightarrow> \<not> js_le b a"
  by (cases a; cases b) (auto simp: js_le_def)

lemma js_not_lt_le: "\<not> num_isNaN a \<Longrightarrow> \<not> num_isNaN b \<Longrightarrow> \<not> js_lt a b \<Longrightarrow> js_le b a"
  by (simp add: js_le_def)

lemma js_le_trans: "js_le a b \<Longrightarrow> js_le b c \<Longrightarrow> js_le a c"
  by (cases a; cases b; cases c) (auto simp: js_le_def)

lemma find_snoc_last:
  "\<forall>q\<in>set ys. \<not> P q \<Longrightarrow> P x \<Longrightarrow> find P (ys @ [x]) = Some x"
  by (induction ys) auto

lemma find_snoc_keep:
  "find P ys = Some r \<Longrightarrow> find P (ys @ [x]) = Some r"
  by (induction ys) (auto split: if_splits)

lemma find_in_set: "find P ys = Some r \<Longrightarrow> r \<in> set ys \<and> P r"
  by (induction ys) (auto split: if_splits)

lemma foldl_first_min:
  fixes k :: "'a \<Rightarrow> jsnum"
  assumes "\<forall>q\<in>set (a # xs). \<not> num_isNaN (k q)"
  shows "find (\<lambda>p. \<forall>q\<in>set (a # xs). js_le (k p) (k q)) (a # xs) =
         Some (foldl (\<lambda>f c. if js_lt (k c) (k f) then c else f) a xs)"
  using assms
proof (induction xs rule: rev_induct)
  case Nil
  then show ?case by (simp add: js_le_refl)
next
  case (snoc x xs)
  let ?r = "foldl (\<lambda>f c. if js_lt (k c) (k f) then c else f) a xs"
  let ?P = "\<lambda>p. \<forall>q\<in>set (a # xs). js_le (k p) (k q)"
  let ?Q = "\<lambda>p. \<forall>q\<in>set (a # xs @ [x]). js_le (k p) (k q)"
  have nn: "\<forall>q\<in>set (a # xs). \<not> num_isNaN (k q)" and nx: "\<not> num_isNaN (k x)"
    using snoc.prems by auto
  from snoc.IH[OF nn] have ih: "find ?P (a # xs) = Some ?r" .
  from find_in_set[OF ih] have rin: "?r \<in> set (a # xs)" and rmin: "?P ?r" by auto
  have nr: "\<not> num_isNaN (k ?r)" using nn rin by blast
  show ?case
  proof (cases "js_lt (k x) (k ?r)")
    case True
    have "\<forall>q\<in>set (a # xs). \<not> ?Q q"
    proof
      fix q assume q: "q \<in> set (a # xs)"
      have "js_le (k ?r) (k q)" using rmin q by blast
      show "\<not> ?Q q"
      proof
        assume "?Q q"
        then have "js_le (k q) (k x)" by simp
        with \<open>js_le (k ?r) (k q)\<close> have "js_le (k ?r) (k x)" by (rule js_le_trans)
        with js_lt_not_le[OF True] show False by simp
      qed
    qed
    moreover have "?Q x"
    proof
      fix q assume "q \<in> set (a # xs @ [x])"
      then consider "q = x" | "q \<in> set (a # xs)" by auto
      then show "js_le (k x) (k q)"
      proof cases
        case 1
        then show ?thesis using nx by (simp add: js_le_refl)
      next
        case 2
        then have "js_le (k ?r) (k q)" using rmin by blast
        with js_lt_imp_le[OF True] show ?thesis by (rule js_le_trans)
      qed
    qed
    ultimately have "find ?Q ((a # xs) @ [x]) = Some x" by (rule find_snoc_last)
    then show ?thesis using True by simp
  next
    case False
    have rx: "js_le (k ?r) (k x)" using js_not_lt_le[OF nx nr False] .
    have "find ?Q (a # xs) = find ?P (a # xs)"
    proof (rule find_cong[OF refl])
      fix p assume "p \<in> set (a # xs)"
      show "?Q p = ?P p"
      proof
        assume "?Q p" then show "?P p" by simp
      next
        assume p: "?P p"
        then have "js_le (k p) (k ?r)" using rin by blast
        then have "js_le (k p) (k x)" using rx by (rule js_le_trans)
        with p show "?Q p" by simp
      qed
    qed
    with ih have "find ?Q (a # xs) = Some ?r" by simp
    then have "find ?Q ((a # xs) @ [x]) = Some ?r" by (rule find_snoc_keep)
    then show ?thesis using False by simp
  qed
qed

text \<open>
  C7. In a state where no \<open>current\<close> is \<open>NaN\<close> (\<open>updateStats\<close> never stores one),
  \<open>getFastestProvider()\<close> returns, among the providers whose \<open>current\<close> is a number,
  the first in registry order whose value is minimal, so that of two providers with
  the same minimal value the one registered first is returned; it returns \<open>null\<close>
  exactly when no provider has a \<open>current\<close>.
\<close>

theorem getFastestProvider_first_minimal:
  assumes "list_all (\<lambda>p. st_current (p_stats p) \<noteq> JNum NaN) (providers m)"
  shows "getFastestProvider m = fastest_spec (providers m) \<and>
         (getFastestProvider m = None \<longleftrightarrow> filter has_current (providers m) = [])"
proof (cases "filter has_current (providers m)")
  case Nil
  then show ?thesis
    by (simp add: getFastestProvider_def fastest_spec_def has_current_def[abs_def])
next
  case (Cons a xs)
  have "\<forall>q\<in>set (a # xs). \<not> num_isNaN (current_latency q)"
  proof
    fix q assume "q \<in> set (a # xs)"
    then have "q \<in> set (filter has_current (providers m))" by (simp add: Cons)
    then have "has_current q" "st_current (p_stats q) \<noteq> JNum NaN"
      using assms by (auto simp: list_all_iff)
    then show "\<not> num_isNaN (current_latency q)"
      by (cases "st_current (p_stats q)"; cases "the_num (st_current (p_stats q))")
         (auto simp: has_current_def current_latency_def)
  qed
  from foldl_first_min[of a xs current_latency, OF this] Cons show ?thesis
    by (simp add: getFastestProvider_def fastest_spec_def has_current_def[abs_def]
        current_latency_def[abs_def] list_all_iff del: find.simps)
qed

theorem getFastestProvider_first_minimal_witness:
  "(let m = (new_LatencyMonitor (Some API_PROVIDERS))\<lparr>providers :=
        [updateStats (instantiate (the (API_PROVIDERS ! 0))) (JNum (Fin 200)) True 1000,
         updateStats (instantiate (the (API_PROVIDERS ! 1))) (JNum (Fin 120)) True 1000,
         updateStats (instantiate (the (API_PROVIDERS ! 2))) (JNum (Fin 120)) True 1000,
         updateStats (instantiate (the (API_PROVIDERS ! 3))) JNull False 1000]\<rparr>
    in list_all (\<lambda>p. st_current (p_stats p) \<noteq> JNum NaN) (providers m) \<and>
       map_option p_id (getFastestProvider m) = Some (Some ''anthropic'') \<and>
       filter has_current (providers m) \<noteq> [])"
proof -
  define m where "m = (new_LatencyMonitor (Some API_PROVIDERS))\<lparr>providers :=
        [updateStats (instantiate (the (API_PROVIDERS ! 0))) (JNum (Fin 200)) True 1000,
         updateStats (instantiate (the (API_PROVIDERS ! 1))) (JNum (Fin 120)) True 1000,
         updateStats (instantiate (the (API_PROVIDERS ! 2))) (JNum (Fin 120)) True 1000,
         updateStats (instantiate (the (API_PROVIDERS ! 3))) JNull False 1000]\<rparr>"
  have cur: "map (\<lambda>p. st_current (p_stats p)) (providers m) =
      [JNum (Fin 200), JNum (Fin 120), JNum (Fin 120), JNull]"
    by (simp add: m_def updateStats_accepted updateStats_rejected accepted_def Let_def)
  have ids: "map p_id (providers m) =
      [Some ''openai'', Some ''anthropic'', Some ''google'', Some ''azure'']"
    by (simp add: m_def updateStats_accepted updateStats_rejected accepted_def Let_def
        instantiate_def API_PROVIDERS_def)
  obtain a b c d where ps: "providers m = [a, b, c, d]" by (simp add: m_def)
  have h: "list_all (\<lambda>p. st_current (p_stats p) \<noteq> JNum NaN) (providers m)"
    using cur by (simp add: ps)
  from getFastestProvider_first_minimal[OF h]
  have f: "getFastestProvider m = fastest_spec (providers m)"
    and n: "(getFastestProvider m = None) = (filter has_current (providers m) = [])" by blast+
  from f have "getFastestProvider m = Some b"
    using cur by (simp add: ps fastest_spec_def has_current_def current_latency_def js_le_def)
  then have "map_option p_id (getFastestProvider m) = Some (Some ''anthropic'')"
    using ids by (simp add: ps)
  moreover have "filter has_current (providers m) \<noteq> []"
    using n \<open>getFastestProvider m = Some b\<close> by simp
  ultimately show ?thesis
    unfolding Let_def m_def[symmetric] using h by simp
qed

text \<open>\<open>updateStats\<close> never stores \<open>NaN\<close> in \<open>current\<close>.\<close>

lemma updateStats_current_number:
  "st_current (p_stats (updateStats p lat success now)) \<noteq> JNum NaN"
  by (cases "accepted lat success")
     (auto simp: updateStats_accepted updateStats_rejected Let_def accepted_def)

section \<open>Properties of a probe round\<close>

text \<open>The floor of a quotient of two numerals, for \<open>Math.round\<close> on concrete times.\<close>

lemma floor_rat_numeral: "\<lfloor>(numeral a :: rat) / numeral b\<rfloor> = numeral a div numeral b"
  using floor_divide_of_int_eq[of "numeral a" "numeral b", where ?'a = rat] by simp

text \<open>The two outcomes of \<open>testProvider\<close>.\<close>

lemma testProvider_offline:
  assumes "\<not> pingTest (testProvider_begin p) (abort_controller env) (fetched env)"
  shows "testProvider mode p env =
     (updateStats (testProvider_begin p) JNull False (date_now env))\<lparr>p_status := Offline\<rparr>"
  using assms
  by (simp add: testProvider_def testProvider_resume_def simpleRequest_def fullRequest_def Let_def)

lemma testProvider_online:
  assumes "performance_now env"
    and "pingTest (testProvider_begin p) (abort_controller env) (fetched env)"
    and "\<not> num_isNaN (math_round (js_sub (endTime env) (startTime env)))"
    and "\<not> js_lt (math_round (js_sub (endTime env) (startTime env))) (Fin 0)"
  shows "testProvider mode p env =
     (updateStats (testProvider_begin p)
        (JNum (math_round (js_sub (endTime env) (startTime env)))) True (date_now env))
       \<lparr>p_status := Online\<rparr>"
  using assms
  by (simp add: testProvider_def testProvider_resume_def simpleRequest_def fullRequest_def Let_def)

text \<open>The monitor over the first three records of the registry.\<close>

lemma providers3: "providers (new_LatencyMonitor (Some (take 3 API_PROVIDERS))) =
   [instantiate (the (API_PROVIDERS ! 0)), instantiate (the (API_PROVIDERS ! 1)), instantiate (the (API_PROVIDERS ! 2))]"
  by (simp add: new_LatencyMonitor_def API_PROVIDERS_def)

lemma round_run_append:
  "round_run r (es @ fs) = (case round_run r es of None \<Rightarrow> None | Some r' \<Rightarrow> round_run r' fs)"
  by (induction es arbitrary: r) (auto split: option.splits)

lemma round_step_counter:
  assumes "round_step r e = Some r'"
    and "totalTests r = t + (if joined r then 1 else 0)" and "joined r \<longrightarrow> pending r = []"
  shows "totalTests r' = t + (if joined r' then 1 else 0) \<and> (joined r' \<longrightarrow> pending r' = [])"
  using assms by (cases e) (auto split: if_splits)

lemma round_run_counter:
  assumes "round_run r es = Some r'"
    and "totalTests r = t + (if joined r then 1 else 0)" and "joined r \<longrightarrow> pending r = []"
  shows "totalTests r' = t + (if joined r' then 1 else 0) \<and> (joined r' \<longrightarrow> pending r' = [])"
  using assms
proof (induction es arbitrary: r)
  case Nil
  then show ?case by simp
next
  case (Cons e es)
  then obtain r1 where s: "round_step r e = Some r1" and run: "round_run r1 es = Some r'"
    by (auto split: option.splits)
  from round_step_counter[OF s Cons.prems(2) Cons.prems(3)] Cons.IH[OF run] show ?case by blast
qed

lemma settle_run:
  assumes "distinct (map fst cs)" and "set (map fst cs) \<subseteq> set (pending r0)"
    and "\<forall>i\<in>set (pending r0). i < length (providers r0)"
  shows "\<exists>r. round_run r0 (map (\<lambda>(i, env). Settle i env) cs) = Some r \<and>
      totalTests r = totalTests r0 \<and> joined r = joined r0 \<and> testMode r = testMode r0 \<and>
      length (providers r) = length (providers r0) \<and>
      pending r = filter (\<lambda>i. i \<notin> fst ` set cs) (pending r0) \<and>
      (\<forall>(i, env)\<in>set cs. providers r ! i = testProvider_resume (testMode r0) (providers r0 ! i) env) \<and>
      (\<forall>j. j \<notin> fst ` set cs \<longrightarrow> providers r ! j = providers r0 ! j)"
  using assms
proof (induction cs arbitrary: r0)
  case Nil
  then show ?case by simp
next
  case (Cons c cs)
  obtain i env where c: "c = (i, env)" by (cases c) auto
  let ?r1 = "r0\<lparr>providers := (providers r0)[i := testProvider_resume (testMode r0) (providers r0 ! i) env],
                 pending := removeAll i (pending r0)\<rparr>"
  have ip: "i \<in> set (pending r0)" using Cons.prems(2) by (simp add: c)
  then have ilen: "i < length (providers r0)" using Cons.prems(3) by blast
  have step: "round_step r0 (Settle i env) = Some ?r1" using ip by simp
  have inotin: "i \<notin> fst ` set cs" using Cons.prems(1) by (simp add: c)
  have d: "distinct (map fst cs)" using Cons.prems(1) by simp
  have sub: "set (map fst cs) \<subseteq> set (pending ?r1)"
    using Cons.prems(2) inotin by (auto simp: c)
  have bound: "\<forall>j\<in>set (pending ?r1). j < length (providers ?r1)"
    using Cons.prems(3) by simp
  from Cons.IH[OF d sub bound] obtain r where
    run: "round_run ?r1 (map (\<lambda>(i, env). Settle i env) cs) = Some r"
    and tt: "totalTests r = totalTests ?r1" and jn: "joined r = joined ?r1"
    and tm: "testMode r = testMode ?r1"
    and len: "length (providers r) = length (providers ?r1)"
    and pend: "pending r = filter (\<lambda>j. j \<notin> fst ` set cs) (pending ?r1)"
    and sett: "\<forall>(j, env)\<in>set cs. providers r ! j = testProvider_resume (testMode ?r1) (providers ?r1 ! j) env"
    and rest: "\<forall>j. j \<notin> fst ` set cs \<longrightarrow> providers r ! j = providers ?r1 ! j"
    by blast
  have run0: "round_run r0 (map (\<lambda>(i, env). Settle i env) (c # cs)) = Some r"
    using run ip by (simp add: c)
  have pend0: "pending r = filter (\<lambda>j. j \<notin> fst ` set (c # cs)) (pending r0)"
    by (simp add: pend c removeAll_filter_not_eq filter_filter conj_commute eq_commute)
  have done0: "\<forall>(j, e)\<in>set (c # cs). providers r ! j = testProvider_resume (testMode r0) (providers r0 ! j) e"
  proof (clarify)
    fix j e assume "(j, e) \<in> set (c # cs)"
    then consider "j = i" "e = env" | "(j, e) \<in> set cs" by (auto simp: c)
    then show "providers r ! j = testProvider_resume (testMode r0) (providers r0 ! j) e"
    proof cases
      case 1
      then show ?thesis using rest inotin ilen by simp
    next
      case 2
      then have "j \<noteq> i" using inotin by force
      with 2 sett show ?thesis by force
    qed
  qed
  have rest0: "\<forall>j. j \<notin> fst ` set (c # cs) \<longrightarrow> providers r ! j = providers r0 ! j"
    using rest by (simp add: c)
  show ?case using run0 tt jn tm len pend0 done0 rest0 by simp
qed


lemma runTests_begin_fields:
  "providers (runTests_begin m) = map testProvider_begin (providers m)"
  "totalTests (runTests_begin m) = totalTests m"
  "testMode (runTests_begin m) = testMode m"
  "pending (runTests_begin m) = [0..<length (providers m)]"
  "joined (runTests_begin m) = False"
  by (simp_all add: runTests_begin_def)

lemma settle_prefix:
  assumes "distinct (map fst settled)" and "set (map fst settled) = {..<length (providers m)}"
  shows "\<exists>r. round_run (runTests_begin m) (map (\<lambda>(i, env). Settle i env) (take k settled)) = Some r \<and>
      totalTests r = totalTests m \<and> joined r = False \<and>
      length (providers r) = length (providers m) \<and>
      pending r = filter (\<lambda>i. i \<notin> fst ` set (take k settled)) [0..<length (providers m)] \<and>
      (\<forall>(i, env)\<in>set (take k settled).
          providers r ! i = testProvider (testMode m) (providers m ! i) env)"
proof -
  have d: "distinct (map fst (take k settled))"
    using assms(1) by (simp add: take_map[symmetric] distinct_take)
  have "set (take k settled) \<subseteq> set settled" by (rule set_take_subset)
  then have "fst ` set (take k settled) \<subseteq> fst ` set settled" by blast
  then have sub: "set (map fst (take k settled)) \<subseteq> set (pending (runTests_begin m))"
    using assms(2) by (auto simp: runTests_begin_fields)
  have bound: "\<forall>i\<in>set (pending (runTests_begin m)). i < length (providers (runTests_begin m))"
    by (simp add: runTests_begin_fields)
  from settle_run[OF d sub bound] obtain r where
    run: "round_run (runTests_begin m) (map (\<lambda>(i, env). Settle i env) (take k settled)) = Some r"
    and tt: "totalTests r = totalTests (runTests_begin m)"
    and jn: "joined r = joined (runTests_begin m)"
    and len: "length (providers r) = length (providers (runTests_begin m))"
    and pend: "pending r = filter (\<lambda>i. i \<notin> fst ` set (take k settled)) (pending (runTests_begin m))"
    and sett: "\<forall>(i, env)\<in>set (take k settled). providers r ! i =
        testProvider_resume (testMode (runTests_begin m)) (providers (runTests_begin m) ! i) env"
    by blast
  have "\<forall>(i, env)\<in>set (take k settled).
          providers r ! i = testProvider (testMode m) (providers m ! i) env"
  proof (clarify)
    fix i env assume ie: "(i, env) \<in> set (take k settled)"
    then have "i \<in> fst ` set settled" using \<open>set (take k settled) \<subseteq> set settled\<close> by force
    then have "i < length (providers m)" using assms(2) by auto
    with sett ie show "providers r ! i = testProvider (testMode m) (providers m ! i) env"
      by (force simp: runTests_begin_fields testProvider_def)
  qed
  with run tt jn len pend show ?thesis by (simp add: runTests_begin_fields)
qed

text \<open>
  C4. Take a round of \<open>runTests\<close> over the \<open>N\<close> providers of a monitor in which every
  probe settles, in any order and with any outcome (\<open>settled\<close> lists the providers in
  the order in which their probes settle, each with what its probe met). Then the
  round ends, \<open>totalTests\<close> has grown by exactly one, and every provider is in the state
  that \<open>testProvider\<close> gives it from its own probe alone, whatever the other probes
  met: a failure or a timeout of one probe does not keep another provider from its
  update nor the counter from its increment. While a probe is still in flight the
  \<open>await\<close> cannot return; and in every state a round can reach, \<open>totalTests\<close> is the
  old value, or the old value plus one once the \<open>await\<close> has returned, which happens
  only with no probe in flight.
\<close>

theorem runTests_all_settled:
  assumes "distinct (map fst settled)" and "set (map fst settled) = {..<length (providers m)}"
  shows "(\<exists>r. runTests m settled = Some r \<and> totalTests r = totalTests m + 1 \<and>
        length (providers r) = length (providers m) \<and>
        (\<forall>(i, env)\<in>set settled.
            providers r ! i = testProvider (testMode m) (providers m ! i) env)) \<and>
     (\<forall>k<length settled.
        round_run (runTests_begin m)
          (map (\<lambda>(i, env). Settle i env) (take k settled) @ [AllSettled]) = None) \<and>
     (\<forall>es r. round_run (runTests_begin m) es = Some r \<longrightarrow>
        totalTests r = totalTests m + (if joined r then 1 else 0) \<and>
        (joined r \<longrightarrow> pending r = []))"
proof (intro conjI allI impI)
  from settle_prefix[OF assms, of "length settled"] obtain r where
    run: "round_run (runTests_begin m) (map (\<lambda>(i, env). Settle i env) settled) = Some r"
    and tt: "totalTests r = totalTests m" and jn: "joined r = False"
    and len: "length (providers r) = length (providers m)"
    and pend: "pending r = filter (\<lambda>i. i \<notin> fst ` set settled) [0..<length (providers m)]"
    and sett: "\<forall>(i, env)\<in>set settled.
          providers r ! i = testProvider (testMode m) (providers m ! i) env"
    by auto
  have "pending r = []" using assms(2) by (auto simp: pend filter_empty_conv)
  then have "round_step r AllSettled = Some (r\<lparr>totalTests := totalTests r + 1, joined := True\<rparr>)"
    using jn by simp
  then have "runTests m settled = Some (r\<lparr>totalTests := totalTests r + 1, joined := True\<rparr>)"
    using run by (simp add: runTests_def round_run_append)
  then show "\<exists>r. runTests m settled = Some r \<and> totalTests r = totalTests m + 1 \<and>
        length (providers r) = length (providers m) \<and>
        (\<forall>(i, env)\<in>set settled.
            providers r ! i = testProvider (testMode m) (providers m ! i) env)"
    using tt len sett by simp
next
  fix k assume k: "k < length settled"
  from settle_prefix[OF assms, of k] obtain r where
    run: "round_run (runTests_begin m) (map (\<lambda>(i, env). Settle i env) (take k settled)) = Some r"
    and pend: "pending r = filter (\<lambda>i. i \<notin> fst ` set (take k settled)) [0..<length (providers m)]"
    by auto
  let ?i = "fst (settled ! k)"
  have "?i \<in> set (map fst settled)" using k by simp
  then have in_range: "?i < length (providers m)" using assms(2) by auto
  have "?i \<notin> fst ` set (take k settled)"
  proof
    assume "?i \<in> fst ` set (take k settled)"
    then have "?i \<in> set (take k (map fst settled))" by (simp add: take_map)
    then obtain j where "j < k" "map fst settled ! j = ?i"
      using k by (auto simp: in_set_conv_nth)
    with k assms(1) show False by (auto simp: distinct_conv_nth)
  qed
  with in_range have "?i \<in> set (pending r)" by (simp add: pend)
  then have "pending r \<noteq> []" by auto
  then show "round_run (runTests_begin m)
          (map (\<lambda>(i, env). Settle i env) (take k settled) @ [AllSettled]) = None"
    using run by (simp add: round_run_append)
next
  fix es r assume run: "round_run (runTests_begin m) es = Some r"
  have "totalTests r = totalTests m + (if joined r then 1 else 0) \<and> (joined r \<longrightarrow> pending r = [])"
    by (rule round_run_counter[OF run]) (simp_all add: runTests_begin_fields)
  then show "totalTests r = totalTests m + (if joined r then 1 else 0)" by simp
next
  fix es r assume run: "round_run (runTests_begin m) es = Some r" and j: "joined r"
  have "totalTests r = totalTests m + (if joined r then 1 else 0) \<and> (joined r \<longrightarrow> pending r = [])"
    by (rule round_run_counter[OF run]) (simp_all add: runTests_begin_fields)
  with j show "pending r = []" by simp
qed

theorem runTests_all_settled_witness:
  "(let m = new_LatencyMonitor (Some (take 3 API_PROVIDERS));
        ok = \<lparr>performance_now = True, abort_controller = True, startTime = Fin 1000,
              endTime = Fin (11204 / 10), fetched = Resolved, date_now = 5000\<rparr>;
        late = \<lparr>performance_now = True, abort_controller = True, startTime = Fin 1000,
              endTime = Fin 11001, fetched = RejectedAbortError, date_now = 15000\<rparr>;
        settled = [(2, ok), (0, ok), (1, late)]
    in distinct (map fst settled) \<and> set (map fst settled) = {..<length (providers m)} \<and>
       (\<exists>r. runTests m settled = Some r \<and> totalTests r = 1 \<and>
          map (\<lambda>p. (p_status p, st_successes (p_stats p), st_failures (p_stats p), st_current (p_stats p)))
            (providers r) =
          [(Online, Fin 1, Fin 0, JNum (Fin 120)), (Offline, Fin 0, Fin 1, JNull),
           (Online, Fin 1, Fin 0, JNum (Fin 120))]) \<and>
       round_run (runTests_begin m) [Settle 2 ok, Settle 0 ok, AllSettled] = None)"
proof -
  define m where "m = new_LatencyMonitor (Some (take 3 API_PROVIDERS))"
  define ok where "ok = \<lparr>performance_now = True, abort_controller = True, startTime = Fin 1000,
              endTime = Fin (11204 / 10), fetched = Resolved, date_now = 5000\<rparr>"
  define late where "late = \<lparr>performance_now = True, abort_controller = True, startTime = Fin 1000,
              endTime = Fin 11001, fetched = RejectedAbortError, date_now = 15000\<rparr>"
  define settled where "settled = [(2::nat, ok), (0, ok), (1, late)]"
  have ps: "providers m = [instantiate (the (API_PROVIDERS ! 0)),
      instantiate (the (API_PROVIDERS ! 1)), instantiate (the (API_PROVIDERS ! 2))]"
    by (simp add: m_def providers3)
  have tm: "testMode m = ''ping''" and tt: "totalTests m = 0"
    by (simp_all add: m_def new_LatencyMonitor_def)
  have d: "distinct (map fst settled)" by (simp add: settled_def)
  have s: "set (map fst settled) = {..<length (providers m)}"
    by (auto simp: settled_def ps)
  have t0: "testProvider ''ping'' (instantiate (the (API_PROVIDERS ! 0))) ok =
      (updateStats (testProvider_begin (instantiate (the (API_PROVIDERS ! 0)))) (JNum (Fin 120)) True 5000)\<lparr>p_status := Online\<rparr>"
    by (subst testProvider_online)
       (simp_all add: ok_def pingTest_def testProvider_begin_def instantiate_def API_PROVIDERS_def js_sub_def floor_rat_numeral)
  have t2: "testProvider ''ping'' (instantiate (the (API_PROVIDERS ! 2))) ok =
      (updateStats (testProvider_begin (instantiate (the (API_PROVIDERS ! 2)))) (JNum (Fin 120)) True 5000)\<lparr>p_status := Online\<rparr>"
    by (subst testProvider_online)
       (simp_all add: ok_def pingTest_def testProvider_begin_def instantiate_def API_PROVIDERS_def js_sub_def floor_rat_numeral)
  have t1: "testProvider ''ping'' (instantiate (the (API_PROVIDERS ! 1))) late =
      (updateStats (testProvider_begin (instantiate (the (API_PROVIDERS ! 1)))) JNull False 15000)\<lparr>p_status := Offline\<rparr>"
    by (subst testProvider_offline)
       (simp_all add: late_def pingTest_def testProvider_begin_def instantiate_def API_PROVIDERS_def)
  from runTests_all_settled[OF d s] obtain r where
    run: "runTests m settled = Some r" and tot: "totalTests r = totalTests m + 1"
    and len: "length (providers r) = length (providers m)"
    and each: "\<forall>(i, env)\<in>set settled. providers r ! i = testProvider (testMode m) (providers m ! i) env"
    and early: "\<forall>k<length settled. round_run (runTests_begin m)
          (map (\<lambda>(i, env). Settle i env) (take k settled) @ [AllSettled]) = None"
    by blast
  from len obtain a b c where abc: "providers r = [a, b, c]"
    by (cases "providers r"; simp add: ps; rename_tac x xs; case_tac xs; simp; rename_tac y ys; case_tac ys; simp)
  from each have
    "a = testProvider ''ping'' (instantiate (the (API_PROVIDERS ! 0))) ok"
    "b = testProvider ''ping'' (instantiate (the (API_PROVIDERS ! 1))) late"
    "c = testProvider ''ping'' (instantiate (the (API_PROVIDERS ! 2))) ok"
    by (simp_all add: settled_def abc ps tm)
  then have
    "a = (updateStats (testProvider_begin (instantiate (the (API_PROVIDERS ! 0))))
            (JNum (Fin 120)) True 5000)\<lparr>p_status := Online\<rparr>"
    "b = (updateStats (testProvider_begin (instantiate (the (API_PROVIDERS ! 1))))
            JNull False 15000)\<lparr>p_status := Offline\<rparr>"
    "c = (updateStats (testProvider_begin (instantiate (the (API_PROVIDERS ! 2))))
            (JNum (Fin 120)) True 5000)\<lparr>p_status := Online\<rparr>"
    by (simp_all only: t0 t1 t2)
  then have vals: "map (\<lambda>p. (p_status p, st_successes (p_stats p), st_failures (p_stats p), st_current (p_stats p)))
            (providers r) =
          [(Online, Fin 1, Fin 0, JNum (Fin 120)), (Offline, Fin 0, Fin 1, JNull),
           (Online, Fin 1, Fin 0, JNum (Fin 120))]"
    by (simp add: abc updateStats_accepted updateStats_rejected accepted_def Let_def
        testProvider_begin_def instantiate_def js_or_def)
  from early[rule_format, of 2]
  have e: "round_run (runTests_begin m) [Settle 2 ok, Settle 0 ok, AllSettled] = None"
    by (simp add: settled_def)
  show ?thesis
    unfolding Let_def m_def[symmetric] ok_def[symmetric] late_def[symmetric]
    using d s run tot vals e by (simp add: settled_def tt)
qed

section \<open>Properties of the snapshot\<close>

lemma lookup_Some_less: "lookup h a = Some c \<Longrightarrow> a < length h"
  by (simp add: lookup_def split: if_splits)

lemma lookup_append: "a < length h \<Longrightarrow> lookup (h @ ext) a = lookup h a"
  by (simp add: lookup_def nth_append)

lemma lookup_update: "lookup (h[b := v]) a = (if a = b \<and> b < length h then Some v else lookup h a)"
  by (simp add: lookup_def)

lemma read_stats_stable:
  assumes "read_stats h a \<noteq> None" and "\<And>b. b < length h \<Longrightarrow> lookup h' b = lookup h b"
  shows "read_stats h' a = read_stats h a"
proof -
  from assms(1) obtain st where 1: "lookup h a = Some (StatsObj st)"
    by (auto simp: read_stats_def split: option.splits cell.splits)
  with assms(1) obtain xs where 2: "lookup h (st_history st) = Some (ArrayObj xs)"
    by (auto simp: read_stats_def split: option.splits cell.splits)
  have "lookup h' a = lookup h a"
    by (rule assms(2)) (rule lookup_Some_less[OF 1])
  moreover have "lookup h' (st_history st) = lookup h (st_history st)"
    by (rule assms(2)) (rule lookup_Some_less[OF 2])
  ultimately have "lookup h' a = Some (StatsObj st)" "lookup h' (st_history st) = Some (ArrayObj xs)"
    using 1 2 by simp_all
  with 1 2 show ?thesis by (simp add: read_stats_def)
qed

lemma read_provider_stable:
  assumes "read_provider h a \<noteq> None" and "\<And>b. b < length h \<Longrightarrow> lookup h' b = lookup h b"
  shows "read_provider h' a = read_provider h a"
proof -
  from assms(1) obtain p where 1: "lookup h a = Some (ProviderObj p)"
    by (auto simp: read_provider_def split: option.splits cell.splits)
  with assms(1) have 2: "read_stats h (p_stats p) \<noteq> None"
    by (auto simp: read_provider_def split: option.splits)
  have "lookup h' a = lookup h a"
    by (rule assms(2)) (rule lookup_Some_less[OF 1])
  with 1 have 3: "lookup h' a = Some (ProviderObj p)" by simp
  from read_stats_stable[OF 2 assms(2)] 1 3 show ?thesis
    by (simp add: read_provider_def)
qed

lemma monitor_view_stable:
  assumes "well_formed h provs" and "\<And>b. b < length h \<Longrightarrow> lookup h' b = lookup h b"
  shows "monitor_view h' provs = monitor_view h provs"
  using assms(1) read_provider_stable[OF _ assms(2)]
  by (auto simp: monitor_view_def well_formed_def list_all_iff)

text \<open>
  One step of \<open>getStats\<close> on a provider that is in the store with its \<open>stats\<close>
  object, and on an address that is not.
\<close>

lemma getStats_Cons:
  assumes "lookup h a = Some (ProviderObj p)" and "lookup h (p_stats p) = Some (StatsObj st)"
  shows "getStats h (a # as) =
     (let h2 = h @ [StatsObj st, SnapshotObj
                      \<lparr>s_id = str_or (p_id p) ''unknown'',
                       s_name = str_or (p_name p) ''Unknown'',
                       s_color = str_or (p_color p) ''#000000'',
                       s_status = p_status p,
                       s_stats = length h\<rparr>]
      in (fst (getStats h2 as), Suc (length h) # snd (getStats h2 as)))"
  using assms by (simp add: Let_def split_beta)

lemma getStats_skip:
  assumes "\<not> (\<exists>p st. lookup h a = Some (ProviderObj p) \<and> lookup h (p_stats p) = Some (StatsObj st))"
  shows "getStats h (a # as) = getStats h as"
  using assms by (auto split: option.splits cell.splits)

declare getStats.simps(2) [simp del]

lemma getStats_extends: "\<exists>ext. fst (getStats h as) = h @ ext"
proof (induction as arbitrary: h)
  case Nil
  then show ?case by simp
next
  case (Cons a as)
  show ?case
  proof (cases "\<exists>p st. lookup h a = Some (ProviderObj p) \<and> lookup h (p_stats p) = Some (StatsObj st)")
    case True
    then obtain p st where p: "lookup h a = Some (ProviderObj p)"
      and st: "lookup h (p_stats p) = Some (StatsObj st)" by blast
    from Cons.IH[of "h @ [StatsObj st, SnapshotObj
                      \<lparr>s_id = str_or (p_id p) ''unknown'',
                       s_name = str_or (p_name p) ''Unknown'',
                       s_color = str_or (p_color p) ''#000000'',
                       s_status = p_status p,
                       s_stats = length h\<rparr>]"]
    show ?thesis by (auto simp: getStats_Cons[OF p st] Let_def)
  next
    case False
    then show ?thesis using Cons.IH[of h] by (simp add: getStats_skip)
  qed
qed


lemma lookup_extended:
  "lookup h a = Some c \<Longrightarrow> lookup (h @ ext) a = Some c"
  by (simp add: lookup_def nth_append split: if_splits)

lemma well_formed_extended:
  assumes "well_formed h as"
  shows "well_formed (h @ ext) as"
proof -
  have "\<And>b. b < length h \<Longrightarrow> lookup (h @ ext) b = lookup h b" by (rule lookup_append)
  from read_provider_stable[OF _ this] assms show ?thesis
    by (auto simp: well_formed_def list_all_iff)
qed

text \<open>Every record of the result and its \<open>stats\<close> object are new.\<close>

lemma getStats_fresh:
  "\<forall>r\<in>set (snd (getStats h as)). length h \<le> r \<and>
     (\<exists>s. lookup (fst (getStats h as)) r = Some (SnapshotObj s) \<and> length h \<le> s_stats s)"
proof (induction as arbitrary: h)
  case Nil
  then show ?case by simp
next
  case (Cons a as)
  show ?case
  proof (cases "\<exists>p st. lookup h a = Some (ProviderObj p) \<and> lookup h (p_stats p) = Some (StatsObj st)")
    case True
    then obtain p st where p: "lookup h a = Some (ProviderObj p)"
      and st: "lookup h (p_stats p) = Some (StatsObj st)" by blast
    let ?snap = "\<lparr>s_id = str_or (p_id p) ''unknown'',
                       s_name = str_or (p_name p) ''Unknown'',
                       s_color = str_or (p_color p) ''#000000'',
                       s_status = p_status p,
                       s_stats = length h\<rparr>"
    let ?h2 = "h @ [StatsObj st, SnapshotObj ?snap]"
    from getStats_extends[of ?h2 as] obtain ext where ext: "fst (getStats ?h2 as) = ?h2 @ ext" by blast
    have "lookup ?h2 (Suc (length h)) = Some (SnapshotObj ?snap)"
      by (simp add: lookup_def nth_append)
    then have first: "lookup (fst (getStats ?h2 as)) (Suc (length h)) = Some (SnapshotObj ?snap)"
      unfolding ext by (rule lookup_extended)
    have rest: "\<forall>r\<in>set (snd (getStats ?h2 as)). length h \<le> r \<and>
        (\<exists>s. lookup (fst (getStats ?h2 as)) r = Some (SnapshotObj s) \<and> length h \<le> s_stats s)"
      using Cons.IH[of ?h2] by fastforce
    show ?thesis using first rest by (simp add: getStats_Cons[OF p st] Let_def)
  next
    case False
    then show ?thesis using Cons.IH[of h] by (simp add: getStats_skip)
  qed
qed

text \<open>
  On a well-formed store there is one record for each provider, with the values of the
  provider, and its \<open>stats\<close> object has the field values of the provider's.
\<close>

lemma getStats_content:
  assumes "well_formed h as"
  shows "length (snd (getStats h as)) = length as \<and>
    (\<forall>i<length as. \<exists>p st. lookup h (as ! i) = Some (ProviderObj p) \<and>
        lookup h (p_stats p) = Some (StatsObj st) \<and>
        (\<exists>sa. lookup (fst (getStats h as)) (snd (getStats h as) ! i) = Some (SnapshotObj
             \<lparr>s_id = str_or (p_id p) ''unknown'', s_name = str_or (p_name p) ''Unknown'',
              s_color = str_or (p_color p) ''#000000'', s_status = p_status p, s_stats = sa\<rparr>) \<and>
           lookup (fst (getStats h as)) sa = Some (StatsObj st)))"
  using assms
proof (induction as arbitrary: h)
  case Nil
  then show ?case by simp
next
  case (Cons a as)
  from Cons.prems have "read_provider h a \<noteq> None" and wf: "well_formed h as"
    by (simp_all add: well_formed_def)
  then obtain p st where p: "lookup h a = Some (ProviderObj p)"
      and st: "lookup h (p_stats p) = Some (StatsObj st)"
    by (auto simp: read_provider_def read_stats_def split: option.splits cell.splits)
  let ?snap = "\<lparr>s_id = str_or (p_id p) ''unknown'',
                       s_name = str_or (p_name p) ''Unknown'',
                       s_color = str_or (p_color p) ''#000000'',
                       s_status = p_status p,
                       s_stats = length h\<rparr>"
  let ?h2 = "h @ [StatsObj st, SnapshotObj ?snap]"
  let ?h3 = "fst (getStats ?h2 as)"
  let ?rs = "snd (getStats ?h2 as)"
  from getStats_extends[of ?h2 as] obtain ext where ext: "?h3 = ?h2 @ ext" by blast
  have res: "getStats h (a # as) = (?h3, Suc (length h) # ?rs)"
    by (simp add: getStats_Cons[OF p st] Let_def)
  from Cons.IH[OF well_formed_extended[OF wf]] have
    len: "length ?rs = length as" and
    ih: "\<forall>i<length as. \<exists>p st. lookup ?h2 (as ! i) = Some (ProviderObj p) \<and>
        lookup ?h2 (p_stats p) = Some (StatsObj st) \<and>
        (\<exists>sa. lookup ?h3 (?rs ! i) = Some (SnapshotObj
             \<lparr>s_id = str_or (p_id p) ''unknown'', s_name = str_or (p_name p) ''Unknown'',
              s_color = str_or (p_color p) ''#000000'', s_status = p_status p, s_stats = sa\<rparr>) \<and>
           lookup ?h3 sa = Some (StatsObj st))"
    by blast+
  have "\<exists>p st. lookup h ((a # as) ! i) = Some (ProviderObj p) \<and>
        lookup h (p_stats p) = Some (StatsObj st) \<and>
        (\<exists>sa. lookup ?h3 ((Suc (length h) # ?rs) ! i) = Some (SnapshotObj
             \<lparr>s_id = str_or (p_id p) ''unknown'', s_name = str_or (p_name p) ''Unknown'',
              s_color = str_or (p_color p) ''#000000'', s_status = p_status p, s_stats = sa\<rparr>) \<and>
           lookup ?h3 sa = Some (StatsObj st))" if i: "i < length (a # as)" for i
  proof (cases i)
    case 0
    have "lookup ?h2 (Suc (length h)) = Some (SnapshotObj ?snap)"
      by (simp add: lookup_def nth_append)
    then have 1: "lookup ?h3 (Suc (length h)) = Some (SnapshotObj ?snap)"
      unfolding ext by (rule lookup_extended)
    have "lookup ?h2 (length h) = Some (StatsObj st)"
      by (simp add: lookup_def nth_append)
    then have 2: "lookup ?h3 (length h) = Some (StatsObj st)"
      unfolding ext by (rule lookup_extended)
    from p st 1 2 show ?thesis by (auto simp: 0)
  next
    case (Suc j)
    with i have j: "j < length as" by simp
    from wf j have "read_provider h (as ! j) \<noteq> None"
      by (simp add: well_formed_def list_all_length)
    then obtain q sq where q: "lookup h (as ! j) = Some (ProviderObj q)"
      and sq: "lookup h (p_stats q) = Some (StatsObj sq)"
      by (auto simp: read_provider_def read_stats_def split: option.splits cell.splits)
    from q sq have q2: "lookup ?h2 (as ! j) = Some (ProviderObj q)"
      and sq2: "lookup ?h2 (p_stats q) = Some (StatsObj sq)"
      by (simp_all add: lookup_extended)
    from ih[rule_format, OF j] q2 sq2 q sq show ?thesis by (auto simp: Suc)
  qed
  with len show ?case by (simp add: res)
qed


lemma read_store_provider:
  "read_provider (fst (store_provider h p)) (snd (store_provider h p)) = Some p"
  by (simp add: store_provider_def read_provider_def read_stats_def lookup_def nth_append Let_def)

lemma lookup_update_new:
  "length h \<le> a \<Longrightarrow> b < length h \<Longrightarrow> lookup ((h @ ext)[a := v]) b = lookup h b"
  by (simp add: lookup_def nth_append)

text \<open>
  A store with the first provider of the registry after one successful probe of 120 ms,
  and the snapshot of it.
\<close>

lemma example_store:
  "store_provider [] (updateStats (instantiate (the (hd API_PROVIDERS))) (JNum (Fin 120)) True 1000) =
    ([ArrayObj [\<lparr>timestamp = 1000, latency = Fin 120\<rparr>],
      StatsObj \<lparr>st_current = JNum (Fin 120), st_min = Fin 120, st_max = Fin 120,
        st_avg = Fin 120, st_total = Fin 120, st_count = Fin 1, st_successes = Fin 1,
        st_failures = Fin 0, st_history = 0\<rparr>,
      ProviderObj \<lparr>p_id = Some ''openai'', p_name = Some ''OpenAI'',
        p_endpoint = Some ''https://api.openai.com'', p_pingPath = Some ''/v1/models'',
        p_color = Some ''#10a37f'', p_requiresAuth = False, p_stats = 1, p_status = Idle\<rparr>], 2)"
  by (simp add: store_provider_def updateStats_accepted accepted_def Let_def instantiate_def
      API_PROVIDERS_def js_or_def math_min_def math_max_def floor_rat_numeral)

lemma example_getStats:
  "getStats (fst (store_provider [] (updateStats (instantiate (the (hd API_PROVIDERS))) (JNum (Fin 120)) True 1000))) [2] =
    (fst (store_provider [] (updateStats (instantiate (the (hd API_PROVIDERS))) (JNum (Fin 120)) True 1000)) @
     [StatsObj \<lparr>st_current = JNum (Fin 120), st_min = Fin 120, st_max = Fin 120,
        st_avg = Fin 120, st_total = Fin 120, st_count = Fin 1, st_successes = Fin 1,
        st_failures = Fin 0, st_history = 0\<rparr>,
      SnapshotObj \<lparr>s_id = ''openai'', s_name = ''OpenAI'', s_color = ''#10a37f'',
        s_status = Idle, s_stats = 3\<rparr>], [4])"
  by (simp add: example_store getStats.simps lookup_def str_or_def Let_def)

text \<open>
  C8, for the two objects that are copied. \<open>getStats()\<close> copies one level deep. It changes nothing the monitor
  holds and returns one record for each provider, in registry order, with the
  \<open>id\<close>, \<open>name\<close>, \<open>color\<close>, \<open>status\<close> and statistics of the provider. Each record and
  the \<open>stats\<close> object in it are new objects: whatever a caller writes into either
  (\<open>v\<close> is any content), the monitor's providers and their statistics are as before.
  The \<open>history\<close> inside the copy is the provider's own array, at the same address.
\<close>

theorem getStats_shallow_copy:
  assumes "well_formed h provs"
  shows "(let h' = fst (getStats h provs); snaps = snd (getStats h provs) in
     length snaps = length provs \<and>
     monitor_view h' provs = monitor_view h provs \<and>
     (\<forall>r\<in>set snaps. \<forall>v. monitor_view (h'[r := v]) provs = monitor_view h provs) \<and>
     (\<forall>r\<in>set snaps. \<forall>sa v. snapshot_stats_addr h' r = Some sa \<longrightarrow>
         monitor_view (h'[sa := v]) provs = monitor_view h provs) \<and>
     (\<forall>i<length provs. \<exists>p. read_provider h (provs ! i) = Some p \<and>
         read_snapshot h' (snaps ! i) = Some
           \<lparr>s_id = str_or (p_id p) ''unknown'', s_name = str_or (p_name p) ''Unknown'',
            s_color = str_or (p_color p) ''#000000'', s_status = p_status p,
            s_stats = p_stats p\<rparr> \<and>
         snapshot_history_addr h' (snaps ! i) = provider_history_addr h (provs ! i)))"
proof -
  let ?h' = "fst (getStats h provs)" and ?snaps = "snd (getStats h provs)"
  from getStats_extends[of h provs] obtain ext where ext: "?h' = h @ ext" by blast
  from getStats_content[OF assms] have len: "length ?snaps = length provs"
    and content: "\<forall>i<length provs. \<exists>p st. lookup h (provs ! i) = Some (ProviderObj p) \<and>
        lookup h (p_stats p) = Some (StatsObj st) \<and>
        (\<exists>sa. lookup ?h' (?snaps ! i) = Some (SnapshotObj
             \<lparr>s_id = str_or (p_id p) ''unknown'', s_name = str_or (p_name p) ''Unknown'',
              s_color = str_or (p_color p) ''#000000'', s_status = p_status p, s_stats = sa\<rparr>) \<and>
           lookup ?h' sa = Some (StatsObj st))"
    by blast+
  have same: "monitor_view ?h' provs = monitor_view h provs"
    unfolding ext by (rule monitor_view_stable[OF assms]) (rule lookup_append)
  have rec_write: "monitor_view (?h'[r := v]) provs = monitor_view h provs"
    if "r \<in> set ?snaps" for r v
  proof -
    from getStats_fresh[of h provs] that have "length h \<le> r" by blast
    then show ?thesis
      unfolding ext by (intro monitor_view_stable[OF assms] lookup_update_new)
  qed
  have stats_write: "monitor_view (?h'[sa := v]) provs = monitor_view h provs"
    if "r \<in> set ?snaps" and "snapshot_stats_addr ?h' r = Some sa" for r sa v
  proof -
    from getStats_fresh[of h provs] that(1) obtain s where
      "lookup ?h' r = Some (SnapshotObj s)" "length h \<le> s_stats s" by blast
    with that(2) have "length h \<le> sa" by (simp add: snapshot_stats_addr_def)
    then show ?thesis
      unfolding ext by (intro monitor_view_stable[OF assms] lookup_update_new)
  qed
  have each: "\<exists>p. read_provider h (provs ! i) = Some p \<and>
         read_snapshot ?h' (?snaps ! i) = Some
           \<lparr>s_id = str_or (p_id p) ''unknown'', s_name = str_or (p_name p) ''Unknown'',
            s_color = str_or (p_color p) ''#000000'', s_status = p_status p,
            s_stats = p_stats p\<rparr> \<and>
         snapshot_history_addr ?h' (?snaps ! i) = provider_history_addr h (provs ! i)"
    if i: "i < length provs" for i
  proof -
    from content i obtain q st sa where q: "lookup h (provs ! i) = Some (ProviderObj q)"
      and st: "lookup h (p_stats q) = Some (StatsObj st)"
      and snap: "lookup ?h' (?snaps ! i) = Some (SnapshotObj
             \<lparr>s_id = str_or (p_id q) ''unknown'', s_name = str_or (p_name q) ''Unknown'',
              s_color = str_or (p_color q) ''#000000'', s_status = p_status q, s_stats = sa\<rparr>)"
      and sst: "lookup ?h' sa = Some (StatsObj st)"
      by blast
    from assms i have "read_provider h (provs ! i) \<noteq> None"
      by (simp add: well_formed_def list_all_length)
    with q st obtain xs where xs: "lookup h (st_history st) = Some (ArrayObj xs)"
      by (auto simp: read_provider_def read_stats_def split: option.splits cell.splits)
    then have xs': "lookup ?h' (st_history st) = Some (ArrayObj xs)"
      unfolding ext by (rule lookup_extended)
    show ?thesis
      using q st snap sst xs xs'
      by (simp add: read_provider_def read_snapshot_def read_stats_def
          snapshot_history_addr_def snapshot_stats_addr_def provider_history_addr_def)
  qed
  show ?thesis
    unfolding Let_def using len same rec_write stats_write each by blast
qed

theorem getStats_shallow_copy_witness:
  "(let h = fst (store_provider [] (updateStats (instantiate (the (hd API_PROVIDERS)))
                (JNum (Fin 120)) True 1000));
        h' = fst (getStats h [2]);
        snaps = snd (getStats h [2])
    in well_formed h [2] \<and> snaps = [4] \<and> snapshot_stats_addr h' 4 = Some 3 \<and>
       monitor_view (h'[4 := ArrayObj []]) [2] = monitor_view h [2] \<and>
       monitor_view (h'[3 := ArrayObj []]) [2] = monitor_view h [2] \<and>
       map_option s_stats (read_snapshot h' 4) = map_option p_stats (read_provider h 2))"
proof -
  define h where "h = fst (store_provider [] (updateStats (instantiate (the (hd API_PROVIDERS)))
                (JNum (Fin 120)) True 1000))"
  have wf: "well_formed h [2]"
    by (simp add: h_def example_store well_formed_def read_provider_def read_stats_def lookup_def)
  have snaps: "snd (getStats h [2]) = [4]" by (simp add: h_def example_getStats)
  have sa: "snapshot_stats_addr (fst (getStats h [2])) 4 = Some 3"
    by (simp add: h_def example_getStats) (simp add: snapshot_stats_addr_def lookup_def example_store)
  from getStats_shallow_copy[OF wf] have
    a: "\<forall>r\<in>set (snd (getStats h [2])). \<forall>v.
          monitor_view ((fst (getStats h [2]))[r := v]) [2] = monitor_view h [2]"
    and b: "\<forall>r\<in>set (snd (getStats h [2])). \<forall>sa v.
          snapshot_stats_addr (fst (getStats h [2])) r = Some sa \<longrightarrow>
          monitor_view ((fst (getStats h [2]))[sa := v]) [2] = monitor_view h [2]"
    and c: "\<forall>i<length [2::nat]. \<exists>p. read_provider h ([2] ! i) = Some p \<and>
         read_snapshot (fst (getStats h [2])) (snd (getStats h [2]) ! i) = Some
           \<lparr>s_id = str_or (p_id p) ''unknown'', s_name = str_or (p_name p) ''Unknown'',
            s_color = str_or (p_color p) ''#000000'', s_status = p_status p,
            s_stats = p_stats p\<rparr> \<and>
         snapshot_history_addr (fst (getStats h [2])) (snd (getStats h [2]) ! i) =
           provider_history_addr h ([2] ! i)"
    unfolding Let_def by blast+
  from a snaps have 1: "monitor_view ((fst (getStats h [2]))[4 := ArrayObj []]) [2] = monitor_view h [2]"
    by simp
  from b snaps sa have 2: "monitor_view ((fst (getStats h [2]))[3 := ArrayObj []]) [2] = monitor_view h [2]"
    by simp
  from c[rule_format, of 0] snaps
  have 3: "map_option s_stats (read_snapshot (fst (getStats h [2])) 4) = map_option p_stats (read_provider h 2)"
    by auto
  show ?thesis
    unfolding Let_def h_def[symmetric] using wf snaps sa 1 2 3 by simp
qed

text \<open>
  The sentence of the specification includes the \<open>history\<close> sequence. The snapshot's
  \<open>history\<close> is the array at address 0, the provider's; a \<open>push\<close> through the snapshot
  is a \<open>push\<close> on the history the monitor holds.
\<close>

theorem getStats_shared_history_counterexample:
  "(let h = fst (store_provider [] (updateStats (instantiate (the (hd API_PROVIDERS)))
                (JNum (Fin 120)) True 1000));
        h' = fst (getStats h [2]);
        snaps = snd (getStats h [2])
    in well_formed h [2] \<and> snaps = [4] \<and> snapshot_history_addr h' 4 = Some 0 \<and>
       map (map_option (\<lambda>p. map latency (st_history (p_stats p)))) (monitor_view h' [2]) =
         [Some [Fin 120]] \<and>
       map (map_option (\<lambda>p. map latency (st_history (p_stats p))))
         (monitor_view (array_push h' 0 \<lparr>timestamp = 0, latency = Fin 999999\<rparr>) [2]) =
         [Some [Fin 120, Fin 999999]])"
  by (simp add: example_getStats Let_def)
     (simp add: example_store well_formed_def monitor_view_def read_provider_def read_stats_def
        lookup_def snapshot_history_addr_def snapshot_stats_addr_def array_push_def)

end
